theory Spec2Isabelle
  imports Complex_Main "HOL-Library.Sublist" "HOL-Library.AList"
begin

section \<open>Strings and paths\<close>

text \<open>
  Python strings are modelled as \<open>string\<close>. \<open>key.startswith(p)\<close> is \<open>prefix p key\<close>,
  \<open>key.endswith(p)\<close> is \<open>suffix p key\<close> and \<open>key[len(p):]\<close> is \<open>drop (length p) key\<close>.
  The functions of \<open>os.path\<close> are modelled with their POSIX behaviour.
\<close>

abbreviation slash :: char where "slash \<equiv> CHR ''/''"
abbreviation backslash :: char where "backslash \<equiv> CHR 0x5C"
abbreviation dquote :: char where "dquote \<equiv> CHR 0x22"
abbreviation dot :: char where "dot \<equiv> CHR ''.''"

text \<open>\<open>os.path.basename(p)\<close>: everything after the last \<open>/\<close>.\<close>

definition basename :: "string \<Rightarrow> string" where
  "basename p = rev (takeWhile (\<lambda>c. c \<noteq> slash) (rev p))"

text \<open>\<open>s.strip('"')\<close>: leading and trailing double quotes removed.\<close>

definition strip_quotes :: "string \<Rightarrow> string" where
  "strip_quotes s = rev (dropWhile (\<lambda>c. c = dquote) (rev (dropWhile (\<lambda>c. c = dquote) s)))"

text \<open>\<open>s.replace('\\', '/')\<close>.\<close>

definition replace_backslash :: "string \<Rightarrow> string" where
  "replace_backslash s = map (\<lambda>c. if c = backslash then slash else c) s"

section \<open>Filename similarity\<close>

text \<open>
  \<open>calculate_filename_similarity\<close> returns \<open>difflib.SequenceMatcher(None, name1, name2).ratio()\<close>.
  The matcher is modelled after the standard library: no junk predicate, the automatic
  ``popular element'' heuristic for second sequences of 200 elements or more, the longest
  matching block found first (earliest in \<open>a\<close>, then earliest in \<open>b\<close>), and the same search
  repeated to the left and to the right of it. The ratio \<open>2.0 * matches / length\<close> is kept
  as an exact rational; for names of realistic length the floating-point comparison with the
  threshold \<open>0.7\<close> and the ordering of two ratios agree with the exact ones, because the
  division is correctly rounded.
\<close>

definition popular :: "string \<Rightarrow> char list" where
  "popular b = (let n = length b in
     if n \<ge> 200 then filter (\<lambda>elt. count_list b elt > n div 100 + 1) (remdups b) else [])"

text \<open>\<open>j2len.get(j - 1, 0)\<close>; for \<open>j = 0\<close> the key \<open>-1\<close> is never present.\<close>

definition j2len_get :: "(nat \<times> nat) list \<Rightarrow> nat \<Rightarrow> nat" where
  "j2len_get j2len j =
     (if j = 0 then 0 else case map_of j2len (j - 1) of None \<Rightarrow> 0 | Some k \<Rightarrow> k)"

type_synonym match = "nat \<times> nat \<times> nat"

text \<open>The body of the inner loop of \<open>find_longest_match\<close>, for one index \<open>j\<close> of \<open>b\<close>.\<close>

definition match_step ::
  "(nat \<times> nat) list \<Rightarrow> nat \<Rightarrow> nat \<Rightarrow> (nat \<times> nat) list \<times> match \<Rightarrow> (nat \<times> nat) list \<times> match" where
  "match_step j2len i j st =
     (case st of (newj2len, (besti, bestj, bestsize)) \<Rightarrow>
        let k = j2len_get j2len j + 1 in
        ((j, k) # newj2len,
         if k > bestsize then (i + 1 - k, j + 1 - k, k) else (besti, bestj, bestsize)))"

text \<open>One pass of the outer loop: all positions \<open>j\<close> in \<open>[blo, bhi)\<close> with \<open>b[j] = a[i]\<close>.\<close>

definition match_row ::
  "string \<Rightarrow> string \<Rightarrow> char list \<Rightarrow> nat \<Rightarrow> nat \<Rightarrow> nat \<Rightarrow>
   (nat \<times> nat) list \<times> match \<Rightarrow> (nat \<times> nat) list \<times> match" where
  "match_row a b pop blo bhi i st =
     (case st of (j2len, best) \<Rightarrow>
        fold (match_step j2len i)
             (filter (\<lambda>j. b ! j = a ! i \<and> b ! j \<notin> set pop) [blo..<bhi])
             ([], best))"

function extend_left :: "string \<Rightarrow> string \<Rightarrow> nat \<Rightarrow> nat \<Rightarrow> match \<Rightarrow> match" where
  "extend_left a b alo blo (besti, bestj, bestsize) =
     (if besti > alo \<and> bestj > blo \<and> a ! (besti - 1) = b ! (bestj - 1)
      then extend_left a b alo blo (besti - 1, bestj - 1, bestsize + 1)
      else (besti, bestj, bestsize))"
  by pat_completeness auto
termination
  by (relation "measure (\<lambda>(a, b, alo, blo, besti, bestj, bestsize). besti)") auto

function extend_right :: "string \<Rightarrow> string \<Rightarrow> nat \<Rightarrow> nat \<Rightarrow> match \<Rightarrow> match" where
  "extend_right a b ahi bhi (besti, bestj, bestsize) =
     (if besti + bestsize < ahi \<and> bestj + bestsize < bhi
         \<and> a ! (besti + bestsize) = b ! (bestj + bestsize)
      then extend_right a b ahi bhi (besti, bestj, bestsize + 1)
      else (besti, bestj, bestsize))"
  by pat_completeness auto
termination
  by (relation "measure (\<lambda>(a, b, ahi, bhi, besti, bestj, bestsize). ahi - (besti + bestsize))") auto

declare extend_left.simps [simp del] extend_right.simps [simp del]

definition find_longest_match ::
  "string \<Rightarrow> string \<Rightarrow> char list \<Rightarrow> nat \<Rightarrow> nat \<Rightarrow> nat \<Rightarrow> nat \<Rightarrow> match" where
  "find_longest_match a b pop alo ahi blo bhi =
     extend_right a b ahi bhi
       (extend_left a b alo blo
          (snd (fold (match_row a b pop blo bhi) [alo..<ahi] ([], (alo, blo, 0)))))"

lemma extend_left_bounds:
  "extend_left a b alo blo m = (i, j, k) \<Longrightarrow> alo \<le> fst m \<Longrightarrow>
     alo \<le> i \<and> i + k = fst m + snd (snd m)"
proof (induction a b alo blo m rule: extend_left.induct)
  case (1 a b alo blo besti bestj bestsize)
  show ?case
  proof (cases "besti > alo \<and> bestj > blo \<and> a ! (besti - 1) = b ! (bestj - 1)")
    case True
    with "1.prems" have e: "extend_left a b alo blo (besti - 1, bestj - 1, bestsize + 1) = (i, j, k)"
      by (subst (asm) extend_left.simps) simp
    have "alo \<le> fst (besti - 1, bestj - 1, bestsize + 1)" using True by (simp, arith)
    from "1.IH"[OF True e this] True show ?thesis by simp
  next
    case False
    with "1.prems" show ?thesis by (subst (asm) extend_left.simps) auto
  qed
qed

lemma extend_right_bounds:
  "extend_right a b ahi bhi m = (i, j, k) \<Longrightarrow> fst m + snd (snd m) \<le> ahi \<Longrightarrow>
     i = fst m \<and> i + k \<le> ahi"
proof (induction a b ahi bhi m rule: extend_right.induct)
  case (1 a b ahi bhi besti bestj bestsize)
  show ?case
  proof (cases "besti + bestsize < ahi \<and> bestj + bestsize < bhi
         \<and> a ! (besti + bestsize) = b ! (bestj + bestsize)")
    case True
    with "1.prems" have e: "extend_right a b ahi bhi (besti, bestj, bestsize + 1) = (i, j, k)"
      by (subst (asm) extend_right.simps) simp
    have "fst (besti, bestj, bestsize + 1) + snd (snd (besti, bestj, bestsize + 1)) \<le> ahi"
      using True by simp
    from "1.IH"[OF True e this] show ?thesis by simp
  next
    case False
    with "1.prems" show ?thesis by (subst (asm) extend_right.simps) auto
  qed
qed

text \<open>
  Every match found lies inside the window it was searched in; this is what makes the
  recursion of \<open>get_matching_blocks\<close> terminate.
\<close>

definition row_inv :: "nat \<Rightarrow> nat \<Rightarrow> (nat \<times> nat) list \<times> match \<Rightarrow> bool" where
  "row_inv alo n st = (case st of (j2len, (bi, bj, bs)) \<Rightarrow>
      alo \<le> bi \<and> bi + bs \<le> n \<and> (\<forall>(j, k) \<in> set j2len. k + alo \<le> n))"

lemma j2len_get_le:
  "\<forall>(j, k) \<in> set j2len. k + alo \<le> n \<Longrightarrow> alo \<le> n \<Longrightarrow> j2len_get j2len j + alo \<le> n"
  by (auto simp: j2len_get_def split: option.splits dest!: map_of_SomeD)

lemma match_step_inv:
  assumes "\<forall>(j, k) \<in> set j2len. k + alo \<le> i" "alo \<le> i" "row_inv alo (Suc i) st"
  shows "row_inv alo (Suc i) (match_step j2len i j st)"
proof -
  obtain new bi bj bs where st: "st = (new, (bi, bj, bs))" by (cases st) auto
  have le: "j2len_get j2len j + alo \<le> i" using assms(1,2) by (rule j2len_get_le)
  show ?thesis using assms(3) le assms(2)
    by (auto simp: match_step_def st row_inv_def Let_def)
qed

lemma fold_match_step_inv:
  assumes "\<forall>(j, k) \<in> set j2len. k + alo \<le> i" "alo \<le> i"
  shows "row_inv alo (Suc i) st \<Longrightarrow> row_inv alo (Suc i) (fold (match_step j2len i) js st)"
  by (induction js arbitrary: st) (simp_all add: match_step_inv[OF assms])

lemma match_row_inv:
  assumes "row_inv alo i st" "alo \<le> i"
  shows "row_inv alo (Suc i) (match_row a b pop blo bhi i st)"
proof -
  obtain j2len bi bj bs where st: "st = (j2len, (bi, bj, bs))" by (cases st) auto
  have 1: "\<forall>(j, k) \<in> set j2len. k + alo \<le> i" using assms(1) by (auto simp: row_inv_def st)
  have 2: "row_inv alo (Suc i) ([], (bi, bj, bs))" using assms(1) by (auto simp: row_inv_def st)
  show ?thesis
    unfolding match_row_def st prod.case
    by (rule fold_match_step_inv[OF 1 assms(2) 2])
qed

lemma fold_rows_inv:
  "row_inv alo m st \<Longrightarrow> alo \<le> m \<Longrightarrow> m \<le> n \<Longrightarrow>
     row_inv alo n (fold (match_row a b pop blo bhi) [m..<n] st)"
proof (induction "n - m" arbitrary: m st)
  case 0
  then show ?case by simp
next
  case (Suc d)
  then have mn: "m < n" by simp
  then have upt: "[m..<n] = m # [Suc m..<n]" by (simp add: upt_conv_Cons)
  have a: "d = n - Suc m" using Suc.hyps(2) by simp
  have b: "row_inv alo (Suc m) (match_row a b pop blo bhi m st)"
    using Suc.prems(1,2) by (rule match_row_inv)
  have c: "alo \<le> Suc m" "Suc m \<le> n" using Suc.prems(2) mn by simp_all
  show ?case
    unfolding upt fold_Cons comp_apply
    by (rule Suc.hyps(1)[OF a b c])
qed

lemma find_longest_match_bounds:
  assumes "find_longest_match a b pop alo ahi blo bhi = (i, j, k)" and "k \<noteq> 0"
  shows "alo \<le> i \<and> i + k \<le> ahi"
proof (cases "alo \<le> ahi")
  case True
  obtain j2len bi bj bs where
    f: "fold (match_row a b pop blo bhi) [alo..<ahi] ([], (alo, blo, 0)) = (j2len, (bi, bj, bs))"
    using prod_cases4 by blast
  have "row_inv alo alo ([], (alo, blo, 0))" by (simp add: row_inv_def)
  then have "row_inv alo ahi (fold (match_row a b pop blo bhi) [alo..<ahi] ([], (alo, blo, 0)))"
    using True by (intro fold_rows_inv) simp_all
  then have inv: "alo \<le> bi" "bi + bs \<le> ahi" by (simp_all add: f row_inv_def)
  obtain i1 j1 k1 where l: "extend_left a b alo blo (bi, bj, bs) = (i1, j1, k1)"
    using prod_cases3 by blast
  have "alo \<le> fst (bi, bj, bs)" using inv(1) by simp
  from extend_left_bounds[OF l this] have l0: "alo \<le> i1" "i1 + k1 = bi + bs" by simp_all
  have l': "i1 + k1 \<le> ahi" using l0(2) inv(2) by linarith
  from assms(1) have r: "extend_right a b ahi bhi (i1, j1, k1) = (i, j, k)"
    by (simp add: find_longest_match_def f l)
  have "fst (i1, j1, k1) + snd (snd (i1, j1, k1)) \<le> ahi" using l' by simp
  from extend_right_bounds[OF r this] have "i = i1" "i + k \<le> ahi" by simp_all
  then show ?thesis using l0(1) by simp
next
  case False
  then have "[alo..<ahi] = []" by simp
  with assms False show ?thesis
    by (simp add: find_longest_match_def extend_left.simps extend_right.simps)
qed

text \<open>
  \<open>get_matching_blocks\<close> and \<open>ratio\<close>: the total size of the matching blocks, found by
  searching the longest match and then both sides of it.
\<close>

function matching_size ::
  "string \<Rightarrow> string \<Rightarrow> char list \<Rightarrow> nat \<Rightarrow> nat \<Rightarrow> nat \<Rightarrow> nat \<Rightarrow> nat" where
  "matching_size a b pop alo ahi blo bhi =
     (case find_longest_match a b pop alo ahi blo bhi of (i, j, k) \<Rightarrow>
        if k = 0 then 0
        else k + (if alo < i \<and> blo < j then matching_size a b pop alo i blo j else 0)
               + (if i + k < ahi \<and> j + k < bhi then matching_size a b pop (i + k) ahi (j + k) bhi
                  else 0))"
  by pat_completeness auto
termination
proof (relation "measure (\<lambda>(a, b, pop, alo, ahi, blo, bhi). ahi - alo)", goal_cases)
  case 1
  then show ?case by simp
next
  case (2 a b pop alo ahi blo bhi i y j k)
  then have "find_longest_match a b pop alo ahi blo bhi = (i, j, k)" by simp
  from find_longest_match_bounds[OF this 2(3)] have "alo \<le> i" "i + k \<le> ahi" by simp_all
  with 2(3,4) have "i - alo < ahi - alo" by arith
  then show ?case by simp
next
  case (3 a b pop alo ahi blo bhi i y j k)
  then have "find_longest_match a b pop alo ahi blo bhi = (i, j, k)" by simp
  from find_longest_match_bounds[OF this 3(3)] have "alo \<le> i" "i + k \<le> ahi" by simp_all
  with 3(3,4) have "ahi - (i + k) < ahi - alo" by arith
  then show ?case by simp
qed

declare matching_size.simps [simp del]

definition ratio :: "string \<Rightarrow> string \<Rightarrow> rat" where
  "ratio a b =
     (let matches = matching_size a b (popular b) 0 (length a) 0 (length b);
          len = length a + length b
      in if len \<noteq> 0 then 2 * of_nat matches / of_nat len else 1)"

text \<open>\<open>calculate_filename_similarity(name1, name2)\<close>.\<close>

definition calculate_filename_similarity :: "string \<Rightarrow> string \<Rightarrow> rat" where
  "calculate_filename_similarity name1 name2 = ratio name1 name2"


section \<open>Data model\<close>

text \<open>
  An entry of an S3 listing (or the mock entry built from \<open>head_object\<close>). The code reads
  \<open>obj['Key']\<close>, \<open>obj.get('ETag', '')\<close> and \<open>obj.get('Size', 0)\<close>, so a missing \<open>ETag\<close> is the
  empty string and a missing \<open>Size\<close> is \<open>0\<close>.
\<close>

record s3_object =
  Key :: string
  ETag :: string
  Size :: nat

text \<open>The value stored for a local file by \<open>scan_local_files\<close>: \<open>{'hash', 'size', 'path'}\<close>.\<close>

record file_info =
  hash :: string
  fsize :: nat
  path :: string

text \<open>
  A Python \<open>dict\<close> keeps its keys in insertion order and the loops of the scripts iterate in
  that order, so dictionaries are association lists; \<open>d[k] = v\<close> is \<open>AList.update k v d\<close>,
  which replaces the value in place when the key is present and appends otherwise.
\<close>

type_synonym 'v dict = "(string \<times> 'v) list"

definition is_folder_marker :: "s3_object \<Rightarrow> bool" where
  "is_folder_marker obj = (suffix ''/'' (Key obj) \<and> Size obj = 0)"

text \<open>\<open>key[len(s3_prefix):] if s3_prefix and key.startswith(s3_prefix) else key\<close>.\<close>

definition relative_key :: "string \<Rightarrow> string \<Rightarrow> string" where
  "relative_key s3_prefix key =
     (if s3_prefix \<noteq> [] \<and> prefix s3_prefix key then drop (length s3_prefix) key else key)"

definition s3_etag :: "s3_object \<Rightarrow> string" where
  "s3_etag obj = strip_quotes (ETag obj)"

section \<open>Rename detection\<close>

text \<open>
  The hash maps \<open>{hash: [entries]}\<close>: \<open>if h not in m: m[h] = []\<close> followed by
  \<open>m[h].append(e)\<close>.
\<close>

definition hash_map_append :: "string \<Rightarrow> 'e \<Rightarrow> 'e list dict \<Rightarrow> 'e list dict" where
  "hash_map_append h e m =
     (case map_of m h of None \<Rightarrow> m @ [(h, [e])] | Some es \<Rightarrow> AList.update h (es @ [e]) m)"

text \<open>
  A loop that walks \<open>xs\<close>, skips the elements that fail \<open>keep\<close> (the \<open>continue\<close> statements)
  and files the entry \<open>entry x\<close> under the hash \<open>key x\<close>.
\<close>

definition index_by ::
  "('x \<Rightarrow> bool) \<Rightarrow> ('x \<Rightarrow> string) \<Rightarrow> ('x \<Rightarrow> 'e) \<Rightarrow> 'x list \<Rightarrow> 'e list dict" where
  "index_by keep key entry xs =
     fold (\<lambda>x m. if keep x then hash_map_append (key x) (entry x) m else m) xs []"

lemma map_of_hash_map_append:
  "map_of (hash_map_append h e m) h' =
     (if h' = h then Some ((case map_of m h of None \<Rightarrow> [] | Some es \<Rightarrow> es) @ [e]) else map_of m h')"
  by (auto simp: hash_map_append_def update_conv' map_add_def split: option.splits)

lemma distinct_hash_map_append:
  "distinct (map fst m) \<Longrightarrow> distinct (map fst (hash_map_append h e m))"
  by (auto simp: hash_map_append_def distinct_update map_of_eq_None_iff split: option.splits)

lemma fold_index_step:
  "map_of (fold (\<lambda>x m. if keep x then hash_map_append (key x) (entry x) m else m) xs m) h =
     (if filter (\<lambda>x. keep x \<and> key x = h) xs = [] then map_of m h
      else Some ((case map_of m h of None \<Rightarrow> [] | Some es \<Rightarrow> es)
                 @ map entry (filter (\<lambda>x. keep x \<and> key x = h) xs)))"
proof (induction xs arbitrary: m)
  case Nil
  then show ?case by simp
next
  case (Cons x xs)
  show ?case
    by (simp add: Cons.IH map_of_hash_map_append split: option.splits)
qed

lemma fold_index_distinct:
  "distinct (map fst m) \<Longrightarrow>
     distinct (map fst (fold (\<lambda>x m. if keep x then hash_map_append (key x) (entry x) m else m) xs m))"
  by (induction xs arbitrary: m) (simp_all add: distinct_hash_map_append)

lemma map_of_index_by:
  "map_of (index_by keep key entry xs) h =
     (if filter (\<lambda>x. keep x \<and> key x = h) xs = [] then None
      else Some (map entry (filter (\<lambda>x. keep x \<and> key x = h) xs)))"
  by (simp add: index_by_def fold_index_step)

lemma distinct_index_by: "distinct (map fst (index_by keep key entry xs))"
  by (simp add: index_by_def fold_index_distinct)

lemma index_by_items:
  assumes "(h, es) \<in> set (index_by keep key entry xs)"
  shows "es = map entry (filter (\<lambda>x. keep x \<and> key x = h) xs)"
proof -
  have "map_of (index_by keep key entry xs) h = Some es"
    using map_of_is_SomeI[OF distinct_index_by assms] .
  then show ?thesis by (simp add: map_of_index_by split: if_splits)
qed

subsection \<open>Download direction (\<open>sync_from_s3.py\<close>)\<close>

record rename_candidate =
  local_path :: string
  local_filename :: string
  s3_key :: string
  s3_rel_path :: string
  s3_filename :: string
  similarity :: rat

record rename_info =
  new_s3_key :: string
  new_s3_rel_path :: string
  info_similarity :: rat
  old_filename :: string
  new_filename :: string

text \<open>\<open>s3_hash_map\<close>: every object that is not a folder marker and has a non-empty ETag.\<close>

definition s3_hash_map :: "s3_object list \<Rightarrow> string \<Rightarrow> (string \<times> string \<times> string) list dict" where
  "s3_hash_map s3_objects s3_prefix =
     index_by (\<lambda>obj. \<not> is_folder_marker obj \<and> s3_etag obj \<noteq> [])
              s3_etag
              (\<lambda>obj. let rel_path = relative_key s3_prefix (Key obj)
                      in (Key obj, rel_path, basename rel_path))
              s3_objects"

definition s3_paths_set :: "s3_object list \<Rightarrow> string \<Rightarrow> string set" where
  "s3_paths_set s3_objects s3_prefix =
     set (map (\<lambda>obj. relative_key s3_prefix (Key obj))
              (filter (\<lambda>obj. \<not> is_folder_marker obj) s3_objects))"

text \<open>
  \<open>local_hash_map\<close>: local files that are neither already in sync nor present in S3 under the
  same relative path.
\<close>

definition local_hash_map ::
  "file_info dict \<Rightarrow> string set \<Rightarrow> string set \<Rightarrow> (string \<times> string) list dict" where
  "local_hash_map local_files already_matched_files paths_in_s3 =
     index_by (\<lambda>(rel_path, info). rel_path \<notin> already_matched_files \<and> rel_path \<notin> paths_in_s3)
              (\<lambda>(rel_path, info). hash info)
              (\<lambda>(rel_path, info). (rel_path, basename rel_path))
              local_files"

definition all_s3_hash_to_paths :: "s3_object list \<Rightarrow> string \<Rightarrow> string list dict" where
  "all_s3_hash_to_paths s3_objects s3_prefix =
     index_by (\<lambda>obj. \<not> is_folder_marker obj \<and> s3_etag obj \<noteq> [])
              s3_etag
              (\<lambda>obj. relative_key s3_prefix (Key obj))
              s3_objects"

text \<open>
  First pass: all pairs with equal hash whose file names are similar enough. The innermost
  loop pairs one local entry with every S3 entry of the same hash.
\<close>

definition pair_candidates ::
  "rat \<Rightarrow> string \<times> string \<Rightarrow> (string \<times> string \<times> string) list \<Rightarrow> rename_candidate list" where
  "pair_candidates similarity_threshold local_entry s3_entries =
     (case local_entry of (local_rel_path, local_name) \<Rightarrow>
        concat (map (\<lambda>(key, rel_path, filename).
          if calculate_filename_similarity local_name filename \<ge> similarity_threshold
          then [\<lparr>local_path = local_rel_path, local_filename = local_name,
                 s3_key = key, s3_rel_path = rel_path, s3_filename = filename,
                 similarity = calculate_filename_similarity local_name filename\<rparr>]
          else []) s3_entries))"

text \<open>
  \<open>any(path in already_matched_files for path in all_s3_hash_to_paths[local_hash])\<close>, false
  when the hash is not in the map.
\<close>

definition hash_already_matched ::
  "string list dict \<Rightarrow> string set \<Rightarrow> string \<Rightarrow> bool" where
  "hash_already_matched hash_to_paths already_matched_files h =
     (case map_of hash_to_paths h of
        None \<Rightarrow> False
      | Some matching_paths \<Rightarrow> \<exists>path \<in> set matching_paths. path \<in> already_matched_files)"

definition potential_renames ::
  "file_info dict \<Rightarrow> s3_object list \<Rightarrow> string \<Rightarrow> rat \<Rightarrow> string set \<Rightarrow> rename_candidate list" where
  "potential_renames local_files s3_objects s3_prefix similarity_threshold already_matched_files =
     concat (map (\<lambda>(local_hash, local_entries).
       case map_of (s3_hash_map s3_objects s3_prefix) local_hash of
         None \<Rightarrow> []
       | Some s3_entries \<Rightarrow>
           concat (map (\<lambda>local_entry.
             if hash_already_matched (all_s3_hash_to_paths s3_objects s3_prefix)
                  already_matched_files local_hash
             then []
             else pair_candidates similarity_threshold local_entry s3_entries) local_entries))
       (local_hash_map local_files already_matched_files (s3_paths_set s3_objects s3_prefix)))"

text \<open>
  Second pass, over the candidates sorted by similarity, highest first. Python's sort is
  stable, also with \<open>reverse=True\<close>, and so is \<open>sort_key\<close>.
\<close>

definition info_of :: "rename_candidate \<Rightarrow> rename_info" where
  "info_of c = \<lparr>new_s3_key = s3_key c, new_s3_rel_path = s3_rel_path c,
                 info_similarity = similarity c,
                 old_filename = local_filename c, new_filename = s3_filename c\<rparr>"

fun assign_renames ::
  "rename_candidate list \<Rightarrow> rename_info dict \<Rightarrow> string set \<Rightarrow> rename_info dict" where
  "assign_renames [] renames claimed_local_files = renames"
| "assign_renames (c # cs) renames claimed_local_files =
     (if local_path c \<notin> fst ` set renames \<and> local_path c \<notin> claimed_local_files
      then assign_renames cs (AList.update (local_path c) (info_of c) renames)
             (insert (local_path c) claimed_local_files)
      else assign_renames cs renames claimed_local_files)"

definition detect_renames ::
  "file_info dict \<Rightarrow> s3_object list \<Rightarrow> string \<Rightarrow> rat \<Rightarrow> string set \<Rightarrow> rename_info dict" where
  "detect_renames local_files s3_objects s3_prefix similarity_threshold already_matched_files =
     assign_renames
       (sort_key (\<lambda>c. - similarity c)
          (potential_renames local_files s3_objects s3_prefix similarity_threshold
             already_matched_files))
       [] {}"


text \<open>What a candidate of the first pass is made of.\<close>

lemma pair_candidates_char:
  "c \<in> set (pair_candidates th (lrel, lname) ses) \<longleftrightarrow>
     (\<exists>(key, rel, fname) \<in> set ses. th \<le> calculate_filename_similarity lname fname \<and>
        c = \<lparr>local_path = lrel, local_filename = lname, s3_key = key, s3_rel_path = rel,
              s3_filename = fname, similarity = calculate_filename_similarity lname fname\<rparr>)"
  by (auto simp: pair_candidates_def split: if_splits)

lemma potential_renames_char:
  assumes "c \<in> set (potential_renames local_files s3_objects s3_prefix th matched)"
  shows "\<exists>info obj. (local_path c, info) \<in> set local_files \<and> obj \<in> set s3_objects
           \<and> local_path c \<notin> matched
           \<and> local_path c \<notin> s3_paths_set s3_objects s3_prefix
           \<and> \<not> is_folder_marker obj \<and> s3_etag obj = hash info \<and> s3_etag obj \<noteq> []
           \<and> local_filename c = basename (local_path c)
           \<and> s3_key c = Key obj
           \<and> s3_rel_path c = relative_key s3_prefix (Key obj)
           \<and> s3_filename c = basename (s3_rel_path c)
           \<and> s3_rel_path c \<notin> matched
           \<and> similarity c = calculate_filename_similarity (local_filename c) (s3_filename c)
           \<and> th \<le> similarity c"
proof -
  from assms obtain h les ses lrel lname where
    1: "(h, les) \<in> set (local_hash_map local_files matched (s3_paths_set s3_objects s3_prefix))"
    and 2: "map_of (s3_hash_map s3_objects s3_prefix) h = Some ses"
    and 3: "(lrel, lname) \<in> set les"
    and 4: "\<not> hash_already_matched (all_s3_hash_to_paths s3_objects s3_prefix) matched h"
    and c4: "c \<in> set (pair_candidates th (lrel, lname) ses)"
    unfolding potential_renames_def
    by (auto split: option.splits if_splits) metis
  from c4 obtain key rel fname where 5: "(key, rel, fname) \<in> set ses"
    and 6: "th \<le> calculate_filename_similarity lname fname"
    and 7: "c = \<lparr>local_path = lrel, local_filename = lname, s3_key = key, s3_rel_path = rel,
                 s3_filename = fname, similarity = calculate_filename_similarity lname fname\<rparr>"
    unfolding pair_candidates_char by auto
  from index_by_items[OF 1[unfolded local_hash_map_def]] 3
  obtain info where l: "(lrel, info) \<in> set local_files" "lrel \<notin> matched"
    "lrel \<notin> s3_paths_set s3_objects s3_prefix" "hash info = h" "lname = basename lrel"
    by auto
  from 2 5 obtain obj where o: "obj \<in> set s3_objects" "\<not> is_folder_marker obj" "s3_etag obj \<noteq> []"
    "s3_etag obj = h" "key = Key obj" "rel = relative_key s3_prefix (Key obj)" "fname = basename rel"
    by (auto simp: s3_hash_map_def map_of_index_by Let_def split: if_splits)
  have "rel \<notin> matched"
  proof
    assume "rel \<in> matched"
    moreover have "map_of (all_s3_hash_to_paths s3_objects s3_prefix) h =
       Some (map (\<lambda>obj. relative_key s3_prefix (Key obj))
               (filter (\<lambda>x. (\<not> is_folder_marker x \<and> s3_etag x \<noteq> []) \<and> s3_etag x = h) s3_objects))"
      using o by (auto simp: all_s3_hash_to_paths_def map_of_index_by filter_empty_conv)
    ultimately show False using 4 o by (auto simp: hash_already_matched_def)
  qed
  with l o 6 7 show ?thesis by (intro exI[of _ info] exI[of _ obj]) simp
qed

text \<open>Properties of the second pass.\<close>

lemma assign_renames_keep:
  "k \<in> fst ` set renames \<Longrightarrow> map_of (assign_renames cs renames claimed) k = map_of renames k"
proof (induction cs arbitrary: renames claimed)
  case Nil
  then show ?case by simp
next
  case (Cons c cs)
  show ?case
  proof (cases "local_path c \<notin> fst ` set renames \<and> local_path c \<notin> claimed")
    case True
    let ?r = "AList.update (local_path c) (info_of c) renames"
    have "k \<in> fst ` set ?r" using Cons.prems by (simp add: dom_update)
    from Cons.IH[OF this] have "map_of (assign_renames cs ?r (insert (local_path c) claimed)) k = map_of ?r k" .
    moreover have "k \<noteq> local_path c" using True Cons.prems by force
    ultimately show ?thesis using True by (simp add: update_conv')
  next
    case False
    then show ?thesis using Cons by auto
  qed
qed

lemma assign_renames_origin:
  "map_of (assign_renames cs renames claimed) k = Some info \<Longrightarrow>
     map_of renames k = Some info \<or> (\<exists>c \<in> set cs. k = local_path c \<and> info = info_of c)"
proof (induction cs arbitrary: renames claimed)
  case Nil
  then show ?case by simp
next
  case (Cons c cs)
  show ?case
  proof (cases "local_path c \<notin> fst ` set renames \<and> local_path c \<notin> claimed")
    case True
    let ?r = "AList.update (local_path c) (info_of c) renames"
    from Cons.prems True have "map_of (assign_renames cs ?r (insert (local_path c) claimed)) k = Some info"
      by simp
    from Cons.IH[OF this] show ?thesis
      by (auto simp: update_conv' split: if_splits)
  next
    case False
    with Cons.prems have "map_of (assign_renames cs renames claimed) k = Some info" by auto
    from Cons.IH[OF this] show ?thesis by auto
  qed
qed

lemma assign_renames_distinct:
  "distinct (map fst renames) \<Longrightarrow> distinct (map fst (assign_renames cs renames claimed))"
  by (induction cs arbitrary: renames claimed) (auto simp: distinct_update)

lemma assign_renames_greedy:
  assumes "sorted (map (\<lambda>c. - similarity c) cs)" "c \<in> set cs" "local_path c \<notin> fst ` set renames"
    "claimed \<subseteq> fst ` set renames"
  shows "\<exists>c' \<in> set cs. local_path c' = local_path c \<and> similarity c \<le> similarity c' \<and>
           map_of (assign_renames cs renames claimed) (local_path c) = Some (info_of c')"
  using assms
proof (induction cs arbitrary: renames claimed)
  case Nil
  then show ?case by simp
next
  case (Cons d cs)
  let ?r = "AList.update (local_path d) (info_of d) renames"
  show ?case
  proof (cases "local_path d \<notin> fst ` set renames \<and> local_path d \<notin> claimed")
    case True
    note fresh = this
    show ?thesis
    proof (cases "local_path c = local_path d")
      case True
      have "local_path d \<in> fst ` set ?r" by (simp add: dom_update)
      then have "map_of (assign_renames cs ?r (insert (local_path d) claimed)) (local_path d) = map_of ?r (local_path d)"
        by (rule assign_renames_keep)
      then have m: "map_of (assign_renames (d # cs) renames claimed) (local_path c) = Some (info_of d)"
        using fresh True by (simp add: update_conv')
      have "similarity c \<le> similarity d"
        using Cons.prems(1,2) by auto
      with m True show ?thesis by auto
    next
      case False
      then have 1: "c \<in> set cs" using Cons.prems(2) by auto
      have 2: "local_path c \<notin> fst ` set ?r" using False Cons.prems(3) by (simp add: dom_update)
      have 3: "insert (local_path d) claimed \<subseteq> fst ` set ?r" using Cons.prems(4) by (auto simp: dom_update)
      have 4: "sorted (map (\<lambda>c. - similarity c) cs)" using Cons.prems(1) by simp
      from Cons.IH[OF 4 1 2 3] fresh show ?thesis by auto
    qed
  next
    case False
    then have "local_path d \<in> fst ` set renames" using Cons.prems(4) by auto
    then have "local_path c \<noteq> local_path d" using Cons.prems(3) by force
    then have 1: "c \<in> set cs" using Cons.prems(2) by auto
    have 4: "sorted (map (\<lambda>c. - similarity c) cs)" using Cons.prems(1) by simp
    from Cons.IH[OF 4 1 Cons.prems(3,4)] False show ?thesis by auto
  qed
qed

lemma detect_renames_distinct:
  "distinct (map fst (detect_renames local_files s3_objects s3_prefix th matched))"
  unfolding detect_renames_def by (rule assign_renames_distinct) simp

lemma detect_renames_origin:
  assumes "(old, info) \<in> set (detect_renames local_files s3_objects s3_prefix th matched)"
  shows "\<exists>c \<in> set (potential_renames local_files s3_objects s3_prefix th matched).
           old = local_path c \<and> info = info_of c"
proof -
  have "map_of (detect_renames local_files s3_objects s3_prefix th matched) old = Some info"
    using map_of_is_SomeI[OF detect_renames_distinct assms] .
  from assign_renames_origin[OF this[unfolded detect_renames_def]] show ?thesis by simp
qed

lemma detect_renames_greedy:
  assumes "c \<in> set (potential_renames local_files s3_objects s3_prefix th matched)"
  shows "\<exists>c' \<in> set (potential_renames local_files s3_objects s3_prefix th matched).
           local_path c' = local_path c \<and> similarity c \<le> similarity c' \<and>
           map_of (detect_renames local_files s3_objects s3_prefix th matched) (local_path c)
             = Some (info_of c')"
proof -
  let ?cs = "sort_key (\<lambda>c. - similarity c) (potential_renames local_files s3_objects s3_prefix th matched)"
  have "\<exists>c' \<in> set ?cs. local_path c' = local_path c \<and> similarity c \<le> similarity c' \<and>
           map_of (assign_renames ?cs [] {}) (local_path c) = Some (info_of c')"
    by (rule assign_renames_greedy) (use assms in simp_all)
  then show ?thesis by (simp add: detect_renames_def)
qed

subsection \<open>Upload direction (\<open>sync_to_s3.py\<close>)\<close>

text \<open>
  \<open>sync_to_s3.py\<close> still defines its own \<open>detect_renames\<close>, from S3 key (old name) to local
  path (new name), although its callers no longer use it (see \<open>sync_to_s3\<close> below).
\<close>

record upload_candidate =
  u_s3_key :: string
  u_s3_filename :: string
  u_local_path :: string
  u_local_filename :: string
  u_similarity :: rat

record upload_rename_info =
  new_local_path :: string
  u_info_similarity :: rat
  u_old_filename :: string
  u_new_filename :: string

definition u_local_hash_map :: "file_info dict \<Rightarrow> string set \<Rightarrow> (string \<times> string) list dict" where
  "u_local_hash_map local_files already_matched_files =
     index_by (\<lambda>(rel_path, info). rel_path \<notin> already_matched_files)
              (\<lambda>(rel_path, info). hash info)
              (\<lambda>(rel_path, info). (rel_path, basename rel_path))
              local_files"

definition all_local_hash_to_paths :: "file_info dict \<Rightarrow> string list dict" where
  "all_local_hash_to_paths local_files =
     index_by (\<lambda>(rel_path, info). True) (\<lambda>(rel_path, info). hash info)
              (\<lambda>(rel_path, info). rel_path) local_files"

text \<open>
  The S3 side skips folder markers, objects whose relative path exists locally, objects
  without ETag, and objects whose hash belongs to a local file that is already in sync.
\<close>

definition u_s3_hash_map ::
  "file_info dict \<Rightarrow> s3_object list \<Rightarrow> string \<Rightarrow> string set \<Rightarrow>
   (string \<times> string \<times> string) list dict" where
  "u_s3_hash_map local_files s3_objects s3_prefix already_matched_files =
     index_by (\<lambda>obj. \<not> is_folder_marker obj
                    \<and> relative_key s3_prefix (Key obj) \<notin> fst ` set local_files
                    \<and> s3_etag obj \<noteq> []
                    \<and> \<not> hash_already_matched (all_local_hash_to_paths local_files)
                          already_matched_files (s3_etag obj))
              s3_etag
              (\<lambda>obj. let rel_path = relative_key s3_prefix (Key obj)
                      in (Key obj, rel_path, basename rel_path))
              s3_objects"

definition u_pair_candidates ::
  "rat \<Rightarrow> string \<times> string \<times> string \<Rightarrow> (string \<times> string) list \<Rightarrow> upload_candidate list" where
  "u_pair_candidates similarity_threshold s3_entry local_entries =
     (case s3_entry of (key, rel_path, filename) \<Rightarrow>
        concat (map (\<lambda>(local_rel_path, local_name).
          if calculate_filename_similarity filename local_name \<ge> similarity_threshold
          then [\<lparr>u_s3_key = key, u_s3_filename = filename,
                 u_local_path = local_rel_path, u_local_filename = local_name,
                 u_similarity = calculate_filename_similarity filename local_name\<rparr>]
          else []) local_entries))"

definition u_potential_renames ::
  "file_info dict \<Rightarrow> s3_object list \<Rightarrow> string \<Rightarrow> rat \<Rightarrow> string set \<Rightarrow> upload_candidate list" where
  "u_potential_renames local_files s3_objects s3_prefix similarity_threshold already_matched_files =
     concat (map (\<lambda>(s3_hash, s3_entries).
       case map_of (u_local_hash_map local_files already_matched_files) s3_hash of
         None \<Rightarrow> []
       | Some local_entries \<Rightarrow>
           concat (map (\<lambda>s3_entry.
             u_pair_candidates similarity_threshold s3_entry local_entries) s3_entries))
       (u_s3_hash_map local_files s3_objects s3_prefix already_matched_files))"

definition u_info_of :: "upload_candidate \<Rightarrow> upload_rename_info" where
  "u_info_of c = \<lparr>new_local_path = u_local_path c, u_info_similarity = u_similarity c,
                   u_old_filename = u_s3_filename c, u_new_filename = u_local_filename c\<rparr>"

fun u_assign_renames ::
  "upload_candidate list \<Rightarrow> upload_rename_info dict \<Rightarrow> string set \<Rightarrow> upload_rename_info dict" where
  "u_assign_renames [] renames claimed_local_files = renames"
| "u_assign_renames (c # cs) renames claimed_local_files =
     (if u_s3_key c \<notin> fst ` set renames \<and> u_local_path c \<notin> claimed_local_files
      then u_assign_renames cs (AList.update (u_s3_key c) (u_info_of c) renames)
             (insert (u_local_path c) claimed_local_files)
      else u_assign_renames cs renames claimed_local_files)"

definition detect_renames_to_s3 ::
  "file_info dict \<Rightarrow> s3_object list \<Rightarrow> string \<Rightarrow> rat \<Rightarrow> string set \<Rightarrow> upload_rename_info dict" where
  "detect_renames_to_s3 local_files s3_objects s3_prefix similarity_threshold already_matched_files =
     u_assign_renames
       (sort_key (\<lambda>c. - u_similarity c)
          (u_potential_renames local_files s3_objects s3_prefix similarity_threshold
             already_matched_files))
       [] {}"

text \<open>The second pass of the upload direction.\<close>

lemma update_fresh: "k \<notin> fst ` set al \<Longrightarrow> AList.update k v al = al @ [(k, v)]"
  by (induction al) auto

lemma u_assign_renames_keep:
  "e \<in> set renames \<Longrightarrow> e \<in> set (u_assign_renames cs renames claimed)"
  by (induction cs arbitrary: renames claimed) (auto simp: update_fresh)

lemma u_assign_renames_distinct:
  "distinct (map fst renames) \<Longrightarrow> distinct (map fst (u_assign_renames cs renames claimed))"
  by (induction cs arbitrary: renames claimed) (auto simp: distinct_update)

lemma u_assign_renames_origin:
  "(k, info) \<in> set (u_assign_renames cs renames claimed) \<Longrightarrow>
     (k, info) \<in> set renames \<or> (\<exists>c \<in> set cs. k = u_s3_key c \<and> info = u_info_of c)"
proof (induction cs arbitrary: renames claimed)
  case Nil
  then show ?case by simp
next
  case (Cons c cs)
  show ?case
  proof (cases "u_s3_key c \<notin> fst ` set renames \<and> u_local_path c \<notin> claimed")
    case True
    with Cons.prems have "(k, info) \<in> set (u_assign_renames cs (renames @ [(u_s3_key c, u_info_of c)])
        (insert (u_local_path c) claimed))"
      by (simp add: update_fresh)
    from Cons.IH[OF this] show ?thesis by auto
  next
    case False
    with Cons.prems have "(k, info) \<in> set (u_assign_renames cs renames claimed)" by auto
    from Cons.IH[OF this] show ?thesis by auto
  qed
qed

lemma u_assign_renames_targets_distinct:
  "distinct (map (\<lambda>(k, info). new_local_path info) renames) \<Longrightarrow>
   (\<lambda>(k, info). new_local_path info) ` set renames \<subseteq> claimed \<Longrightarrow>
     distinct (map (\<lambda>(k, info). new_local_path info) (u_assign_renames cs renames claimed))"
proof (induction cs arbitrary: renames claimed)
  case Nil
  then show ?case by simp
next
  case (Cons c cs)
  show ?case
  proof (cases "u_s3_key c \<notin> fst ` set renames \<and> u_local_path c \<notin> claimed")
    case True
    let ?r = "renames @ [(u_s3_key c, u_info_of c)]"
    have 1: "distinct (map (\<lambda>(k, info). new_local_path info) ?r)"
      using Cons.prems True by (auto simp: u_info_of_def)
    have 2: "(\<lambda>(k, info). new_local_path info) ` set ?r \<subseteq> insert (u_local_path c) claimed"
      using Cons.prems(2) by (auto simp: u_info_of_def)
    from Cons.IH[OF 1 2] True show ?thesis by (simp add: update_fresh)
  next
    case False
    with Cons show ?thesis by auto
  qed
qed

lemma u_assign_renames_greedy:
  assumes "sorted (map (\<lambda>c. - u_similarity c) cs)" "c \<in> set cs"
  shows "u_s3_key c \<in> fst ` set renames \<or> u_local_path c \<in> claimed \<or>
         (\<exists>c' \<in> set cs. u_similarity c \<le> u_similarity c' \<and>
            (u_s3_key c' = u_s3_key c \<or> u_local_path c' = u_local_path c) \<and>
            (u_s3_key c', u_info_of c') \<in> set (u_assign_renames cs renames claimed))"
  using assms
proof (induction cs arbitrary: renames claimed)
  case Nil
  then show ?case by simp
next
  case (Cons d cs)
  show ?case
  proof (cases "u_s3_key d \<notin> fst ` set renames \<and> u_local_path d \<notin> claimed")
    case True
    let ?r = "renames @ [(u_s3_key d, u_info_of d)]"
    let ?cl = "insert (u_local_path d) claimed"
    have res: "u_assign_renames (d # cs) renames claimed = u_assign_renames cs ?r ?cl"
      using True by (simp add: update_fresh)
    have d_in: "(u_s3_key d, u_info_of d) \<in> set (u_assign_renames cs ?r ?cl)"
      by (rule u_assign_renames_keep) simp
    have le: "\<And>x. x \<in> set cs \<Longrightarrow> u_similarity x \<le> u_similarity d"
      using Cons.prems(1) by auto
    show ?thesis
    proof (cases "c = d")
      case True
      with d_in res show ?thesis by auto
    next
      case False
      then have c: "c \<in> set cs" using Cons.prems(2) by auto
      have s: "sorted (map (\<lambda>c. - u_similarity c) cs)" using Cons.prems(1) by simp
      from Cons.IH[OF s c, of ?r ?cl]
      consider "u_s3_key c \<in> fst ` set ?r" | "u_local_path c \<in> ?cl"
        | c' where "c' \<in> set cs" "u_similarity c \<le> u_similarity c'"
            "u_s3_key c' = u_s3_key c \<or> u_local_path c' = u_local_path c"
            "(u_s3_key c', u_info_of c') \<in> set (u_assign_renames cs ?r ?cl)"
        by blast
      then show ?thesis
      proof cases
        case 1
        then have "u_s3_key c \<in> fst ` set renames \<or> u_s3_key c = u_s3_key d" by auto
        then show ?thesis using d_in res le[OF c] by auto
      next
        case 2
        then have "u_local_path c \<in> claimed \<or> u_local_path c = u_local_path d" by auto
        then show ?thesis using d_in res le[OF c] by auto
      next
        case 3
        then show ?thesis using res by auto
      qed
    qed
  next
    case False
    then have res: "u_assign_renames (d # cs) renames claimed = u_assign_renames cs renames claimed"
      by auto
    show ?thesis
    proof (cases "c = d")
      case True
      with False show ?thesis by auto
    next
      case False
      then have c: "c \<in> set cs" using Cons.prems(2) by auto
      have s: "sorted (map (\<lambda>c. - u_similarity c) cs)" using Cons.prems(1) by simp
      from Cons.IH[OF s c, of renames claimed] res show ?thesis by auto
    qed
  qed
qed

lemma u_pair_candidates_char:
  "c \<in> set (u_pair_candidates th (key, rel, fname) les) \<longleftrightarrow>
     (\<exists>(lrel, lname) \<in> set les. th \<le> calculate_filename_similarity fname lname \<and>
        c = \<lparr>u_s3_key = key, u_s3_filename = fname, u_local_path = lrel, u_local_filename = lname,
              u_similarity = calculate_filename_similarity fname lname\<rparr>)"
  by (auto simp: u_pair_candidates_def split: if_splits)

lemma u_potential_renames_threshold:
  assumes "c \<in> set (u_potential_renames local_files s3_objects s3_prefix th matched)"
  shows "th \<le> u_similarity c \<and>
         u_similarity c = calculate_filename_similarity (u_s3_filename c) (u_local_filename c)"
proof -
  from assms obtain key rel fname les where "c \<in> set (u_pair_candidates th (key, rel, fname) les)"
    unfolding u_potential_renames_def by (auto split: option.splits)
  then show ?thesis unfolding u_pair_candidates_char by auto
qed

lemma u_potential_renames_names:
  assumes "c \<in> set (u_potential_renames local_files s3_objects s3_prefix th matched)"
  shows "u_s3_filename c = basename (relative_key s3_prefix (u_s3_key c))
         \<and> u_local_filename c = basename (u_local_path c)"
proof -
  from assms obtain h ses les key rel fname where
    1: "(h, ses) \<in> set (u_s3_hash_map local_files s3_objects s3_prefix matched)"
    and 2: "map_of (u_local_hash_map local_files matched) h = Some les"
    and 3: "(key, rel, fname) \<in> set ses"
    and 4: "c \<in> set (u_pair_candidates th (key, rel, fname) les)"
    unfolding u_potential_renames_def by (auto split: option.splits) metis
  from 4 obtain lrel lname where 5: "(lrel, lname) \<in> set les"
    and 6: "c = \<lparr>u_s3_key = key, u_s3_filename = fname, u_local_path = lrel,
                 u_local_filename = lname,
                 u_similarity = calculate_filename_similarity fname lname\<rparr>"
    unfolding u_pair_candidates_char by auto
  from index_by_items[OF 1[unfolded u_s3_hash_map_def]] 3
  have "fname = basename (relative_key s3_prefix key)"
    by (auto simp: Let_def)
  moreover from 2 5 have "lname = basename lrel"
    by (auto simp: u_local_hash_map_def map_of_index_by split: if_splits)
  ultimately show ?thesis by (simp add: 6)
qed

lemma detect_renames_to_s3_origin:
  assumes "(k, info) \<in> set (detect_renames_to_s3 local_files s3_objects s3_prefix th matched)"
  shows "\<exists>c \<in> set (u_potential_renames local_files s3_objects s3_prefix th matched).
           k = u_s3_key c \<and> info = u_info_of c"
  using u_assign_renames_origin[OF assms[unfolded detect_renames_to_s3_def]] by simp

lemma detect_renames_to_s3_greedy:
  assumes "c \<in> set (u_potential_renames local_files s3_objects s3_prefix th matched)"
  shows "\<exists>c' \<in> set (u_potential_renames local_files s3_objects s3_prefix th matched).
            u_similarity c \<le> u_similarity c' \<and>
            (u_s3_key c' = u_s3_key c \<or> u_local_path c' = u_local_path c) \<and>
            (u_s3_key c', u_info_of c')
              \<in> set (detect_renames_to_s3 local_files s3_objects s3_prefix th matched)"
proof -
  let ?cs = "sort_key (\<lambda>c. - u_similarity c)
               (u_potential_renames local_files s3_objects s3_prefix th matched)"
  have "sorted (map (\<lambda>c. - u_similarity c) ?cs)" "c \<in> set ?cs" using assms by simp_all
  from u_assign_renames_greedy[OF this, of "[]" "{}"] show ?thesis
    by (simp add: detect_renames_to_s3_def)
qed

lemma detect_renames_to_s3_one_to_one:
  "distinct (map fst (detect_renames_to_s3 local_files s3_objects s3_prefix th matched)) \<and>
   distinct (map (\<lambda>(k, info). new_local_path info)
               (detect_renames_to_s3 local_files s3_objects s3_prefix th matched))"
  unfolding detect_renames_to_s3_def
  by (simp add: u_assign_renames_distinct u_assign_renames_targets_distinct)

section \<open>Effects\<close>

text \<open>
  The scripts change the world through four calls: \<open>s3_client.upload_file\<close>,
  \<open>s3_client.delete_object\<close>, \<open>s3_client.download_file\<close> (after creating the local
  directory when it is missing) and \<open>os.remove\<close> (followed by the removal of the parent
  directory when it has become empty). A run is modelled by the list of such calls it makes, in
  order, together with the questions it asks on the terminal and the messages that matter for
  the claims. Whether a call succeeds is decided by the environment: \<open>client c\<close> is false when
  the call raises.
\<close>

datatype call =
  UploadFile string string
| DeleteObject string
| DownloadFile string string
| DeleteLocalFile string

datatype prompt = ProceedWithSync | ProceedWithDeletion

datatype message = SkippingFileDeletions | Skipped | NoChangesNeeded | ErrorCheckingS3

datatype event = Call call | Asked prompt | Said message

definition mutating :: "event \<Rightarrow> bool" where
  "mutating e = (case e of Call c \<Rightarrow> True | _ \<Rightarrow> False)"

text \<open>
  The local file system, as far as the scripts look at it: a regular file with the MD5 digest
  of its content (\<open>None\<close> when \<open>calculate_local_etag\<close> cannot read it) and its size, or a
  directory with its entries in the order in which \<open>os.walk\<close> lists them.
\<close>

datatype fs_node = File "string option" nat | Dir "(string \<times> fs_node) list"

text \<open>
  What the scripts need from outside: the file system (the node found at an absolute path,
  if any), the objects of the bucket, whether the object store answers at all
  (\<open>s3_unavailable\<close>: listing and \<open>head_object\<close> raise an error other than 404), whether a
  mutating call succeeds, the terminal (\<open>None\<close> is \<open>KeyboardInterrupt\<close> or \<open>EOFError\<close>), and
  the two functions of \<open>os.path\<close> that are not modelled here (\<open>relpath\<close> is \<open>None\<close> when it
  raises \<open>ValueError\<close>).
\<close>

record environment =
  file_system :: "string \<Rightarrow> fs_node option"
  bucket :: "s3_object list"
  s3_unavailable :: bool
  client :: "call \<Rightarrow> bool"
  user :: "prompt \<Rightarrow> string option"
  normpath :: "string \<Rightarrow> string"
  relpath :: "string \<Rightarrow> string \<Rightarrow> string option"

definition path_exists :: "environment \<Rightarrow> string \<Rightarrow> bool" where
  "path_exists env p = (file_system env p \<noteq> None)"

definition isfile :: "environment \<Rightarrow> string \<Rightarrow> bool" where
  "isfile env p = (case file_system env p of Some (File etag sz) \<Rightarrow> True | _ \<Rightarrow> False)"

definition isdir :: "environment \<Rightarrow> string \<Rightarrow> bool" where
  "isdir env p = (case file_system env p of Some (Dir entries) \<Rightarrow> True | _ \<Rightarrow> False)"

text \<open>
  The tuple \<open>(uploaded, updated, deleted, renamed, folders_deleted, folders_added, failed)\<close>;
  the first component is \<open>downloaded\<close> in the download direction.
\<close>

record counts =
  transferred :: nat
  updated :: nat
  deleted :: nat
  renamed :: nat
  folders_deleted :: nat
  folders_added :: nat
  failed :: nat

definition zero_counts :: counts where
  "zero_counts = \<lparr>transferred = 0, updated = 0, deleted = 0, renamed = 0,
                   folders_deleted = 0, folders_added = 0, failed = 0\<rparr>"

definition upload_file :: "environment \<Rightarrow> string \<Rightarrow> string \<Rightarrow> bool \<Rightarrow> bool \<times> event list" where
  "upload_file env local_file s3_key_name dry_run =
     (if dry_run then (True, [])
      else (client env (UploadFile local_file s3_key_name),
            [Call (UploadFile local_file s3_key_name)]))"

definition delete_s3_object :: "environment \<Rightarrow> string \<Rightarrow> bool \<Rightarrow> bool \<times> event list" where
  "delete_s3_object env s3_key_name dry_run =
     (if dry_run then (True, [])
      else (client env (DeleteObject s3_key_name), [Call (DeleteObject s3_key_name)]))"

definition download_file :: "environment \<Rightarrow> string \<Rightarrow> string \<Rightarrow> bool \<Rightarrow> bool \<times> event list" where
  "download_file env s3_key_name local_file dry_run =
     (if dry_run then (True, [])
      else (client env (DownloadFile s3_key_name local_file),
            [Call (DownloadFile s3_key_name local_file)]))"

definition delete_local_file :: "environment \<Rightarrow> string \<Rightarrow> bool \<Rightarrow> bool \<times> event list" where
  "delete_local_file env local_file dry_run =
     (if dry_run then (True, [])
      else (client env (DeleteLocalFile local_file), [Call (DeleteLocalFile local_file)]))"

text \<open>
  \<open>input(...).strip().lower() in ['yes', 'y']\<close>, false when the input is interrupted. A
  \<open>char\<close> is a code point below \<open>U+0100\<close>. Of these, \<open>str.lower()\<close> changes the letters \<open>A\<close> to \<open>Z\<close>
  and \<open>U+00C0\<close> to \<open>U+00DE\<close> (but not the multiplication sign \<open>U+00D7\<close>), and \<open>str.strip()\<close>
  removes the characters for which \<open>str.isspace()\<close> holds: \<open>U+0009\<close> to \<open>U+000D\<close>, \<open>U+001C\<close> to
  \<open>U+0020\<close>, the next-line character \<open>U+0085\<close> and the no-break space \<open>U+00A0\<close>.
\<close>

definition lower :: "string \<Rightarrow> string" where
  "lower s = map (\<lambda>c. let n = (of_char c :: nat) in
                        if (65 \<le> n \<and> n \<le> 90) \<or> (192 \<le> n \<and> n \<le> 222 \<and> n \<noteq> 215)
                        then char_of (n + 32) else c) s"

definition is_space :: "char \<Rightarrow> bool" where
  "is_space c = (let n = (of_char c :: nat)
                 in (9 \<le> n \<and> n \<le> 13) \<or> (28 \<le> n \<and> n \<le> 32) \<or> n = 133 \<or> n = 160)"

definition strip :: "string \<Rightarrow> string" where
  "strip s = rev (dropWhile is_space (rev (dropWhile is_space s)))"

definition confirmed :: "string option \<Rightarrow> bool" where
  "confirmed response =
     (case response of None \<Rightarrow> False | Some r \<Rightarrow> lower (strip r) \<in> {''yes'', ''y''})"

lemma confirmed_ignores_case_and_spaces:
  "confirmed (Some ('' YES'' @ [CHR 0xA0, CHR 0x85, CHR 0x0A]))
   \<and> confirmed (Some ''y'') \<and> \<not> confirmed (Some ''yes please'') \<and> \<not> confirmed (Some [])"
  by code_simp

section \<open>Comparing the two sides\<close>

text \<open>\<open>os.path.splitext(p)[1]\<close>: the last dot of the base name and what follows, unless
  only dots precede it.\<close>

definition splitext_ext :: "string \<Rightarrow> string" where
  "splitext_ext p =
     (let name = basename p;
          stem = rev (drop 1 (dropWhile (\<lambda>c. c \<noteq> dot) (rev name)))
      in if dot \<notin> set name \<or> (\<forall>c \<in> set stem. c = dot) then []
         else dot # rev (takeWhile (\<lambda>c. c \<noteq> dot) (rev name)))"

definition SKIP_EXTENSIONS :: "string set" where
  "SKIP_EXTENSIONS = {''.psd''}"

definition skip_files :: "string set" where
  "skip_files = {''.s3-sync-metadata.json'', ''generate-index.js'', ''README.md''}"

text \<open>The value stored in \<open>s3_files\<close>: \<open>{'key', 'hash', 'size'}\<close>.\<close>

record s3_file =
  s3_file_key :: string
  s3_file_hash :: string
  s3_file_size :: nat

definition build_s3_files :: "s3_object list \<Rightarrow> string \<Rightarrow> s3_file dict" where
  "build_s3_files s3_objects s3_prefix =
     fold (\<lambda>obj s3_files.
             if is_folder_marker obj then s3_files
             else AList.update (relative_key s3_prefix (Key obj))
                    \<lparr>s3_file_key = Key obj, s3_file_hash = s3_etag obj, s3_file_size = Size obj\<rparr>
                    s3_files)
          s3_objects []"

text \<open>\<open>sync_scope_prefix is None or key.startswith(sync_scope_prefix)\<close>.\<close>

definition in_scope :: "string option \<Rightarrow> string \<Rightarrow> bool" where
  "in_scope sync_scope_prefix key =
     (case sync_scope_prefix of None \<Rightarrow> True | Some p \<Rightarrow> prefix p key)"

definition s3_folder_markers :: "s3_object list \<Rightarrow> string option \<Rightarrow> string list" where
  "s3_folder_markers s3_objects sync_scope_prefix =
     map Key (filter (\<lambda>obj. is_folder_marker obj \<and> in_scope sync_scope_prefix (Key obj))
                     s3_objects)"

text \<open>Files that are already in sync: same relative path, same hash.\<close>

definition already_matched :: "file_info dict \<Rightarrow> s3_file dict \<Rightarrow> string set" where
  "already_matched local_files s3_files =
     set (map fst (filter (\<lambda>(rel_path, info).
            case map_of s3_files rel_path of
              None \<Rightarrow> False
            | Some s3_info \<Rightarrow> hash info = s3_file_hash s3_info) local_files))"

text \<open>\<open>sync_scope_prefix and sync_scope_prefix.endswith('/')\<close>.\<close>

definition is_directory_sync :: "string option \<Rightarrow> bool" where
  "is_directory_sync sync_scope_prefix =
     (case sync_scope_prefix of None \<Rightarrow> False | Some p \<Rightarrow> p \<noteq> [] \<and> suffix ''/'' p)"

section \<open>Upload: \<open>sync_to_s3\<close>\<close>

text \<open>
  The loop over the local files. A file that is already in sync is skipped unless \<open>force\<close>
  is set; a file that exists in S3 is updated when \<open>force\<close> is set or the hashes differ; a
  file that is not in S3 is uploaded as new.
\<close>

definition upload_step ::
  "environment \<Rightarrow> string \<Rightarrow> s3_file dict \<Rightarrow> string set \<Rightarrow> bool \<Rightarrow> bool \<Rightarrow> bool \<Rightarrow>
   string \<times> file_info \<Rightarrow> counts \<times> event list \<Rightarrow> counts \<times> event list" where
  "upload_step env s3_prefix s3_files already_matched_files force dry_run folder_is_new item st =
     (case (item, st) of ((rel_path, info), (cnt, evs)) \<Rightarrow>
        if rel_path \<in> already_matched_files \<and> \<not> force then (cnt, evs)
        else
          let s3_key_name = (if s3_prefix \<noteq> [] then s3_prefix @ rel_path else rel_path) in
          case map_of s3_files rel_path of
            Some s3_info \<Rightarrow>
              if force \<or> hash info \<noteq> s3_file_hash s3_info
              then (case upload_file env (path info) s3_key_name dry_run of (ok, es) \<Rightarrow>
                      (if ok then cnt\<lparr>updated := updated cnt + 1\<rparr>
                       else cnt\<lparr>failed := failed cnt + 1\<rparr>, evs @ es))
              else (cnt, evs)
          | None \<Rightarrow>
              (case upload_file env (path info) s3_key_name dry_run of (ok, es) \<Rightarrow>
                 (if ok
                  then (if folder_is_new \<and> transferred cnt + 1 = 1
                        then cnt\<lparr>transferred := transferred cnt + 1, folders_added := 1\<rparr>
                        else cnt\<lparr>transferred := transferred cnt + 1\<rparr>)
                  else cnt\<lparr>failed := failed cnt + 1\<rparr>, evs @ es)))"

text \<open>
  Orphaned objects: in S3 but not local. Objects with an ignored extension are never
  deleted, and only objects within the sync scope are considered.
\<close>

definition orphaned_keys ::
  "file_info dict \<Rightarrow> s3_file dict \<Rightarrow> string option \<Rightarrow> (string \<times> string \<times> nat) list" where
  "orphaned_keys local_files s3_files sync_scope_prefix =
     map (\<lambda>(rel_path, s3_info). (s3_file_key s3_info, rel_path, s3_file_size s3_info))
       (filter (\<lambda>(rel_path, s3_info).
                  lower (splitext_ext rel_path) \<notin> SKIP_EXTENSIONS
                  \<and> rel_path \<notin> fst ` set local_files
                  \<and> in_scope sync_scope_prefix (s3_file_key s3_info))
               s3_files)"

definition delete_orphan_step ::
  "environment \<Rightarrow> bool \<Rightarrow> string \<times> string \<times> nat \<Rightarrow> counts \<times> event list \<Rightarrow> counts \<times> event list" where
  "delete_orphan_step env dry_run orphan st =
     (case (orphan, st) of ((s3_key_name, rel_path, sz), (cnt, evs)) \<Rightarrow>
        case delete_s3_object env s3_key_name dry_run of (ok, es) \<Rightarrow>
          (if ok then cnt\<lparr>deleted := deleted cnt + 1\<rparr> else cnt\<lparr>failed := failed cnt + 1\<rparr>,
           evs @ es))"

definition delete_marker_step ::
  "environment \<Rightarrow> bool \<Rightarrow> string \<Rightarrow> counts \<times> event list \<Rightarrow> counts \<times> event list" where
  "delete_marker_step env dry_run folder_marker_key st =
     (case st of (cnt, evs) \<Rightarrow>
        case delete_s3_object env folder_marker_key dry_run of (ok, es) \<Rightarrow>
          (if ok then cnt\<lparr>folders_deleted := folders_deleted cnt + 1\<rparr>
           else cnt\<lparr>failed := failed cnt + 1\<rparr>, evs @ es))"

text \<open>
  \<open>sync_to_s3\<close>. Its parameters \<open>bucket_name\<close>, \<open>local_dir\<close> and \<open>verbose\<close> only appear in
  messages. The function no longer detects renames (\<open>renames = {}\<close>: ``renamed files will be
  treated as delete + upload''), so \<open>renamed\<close> stays \<open>0\<close>. It has three phases: the uploads,
  the deletion of the orphaned objects, and the deletion of the folder markers when everything
  under an empty local side was deleted.
\<close>

definition uploads_to_s3 ::
  "environment \<Rightarrow> file_info dict \<Rightarrow> s3_object list \<Rightarrow> string \<Rightarrow> bool \<Rightarrow> bool \<Rightarrow>
   string option \<Rightarrow> counts \<times> event list" where
  "uploads_to_s3 env local_files s3_objects s3_prefix force dry_run sync_scope_prefix =
     (let s3_files = build_s3_files s3_objects s3_prefix;
          already_matched_files = already_matched local_files s3_files;
          folder_is_new = (local_files \<noteq> [] \<and> length s3_files = 0
                           \<and> is_directory_sync sync_scope_prefix)
      in fold (upload_step env s3_prefix s3_files already_matched_files force dry_run
                 folder_is_new) local_files (zero_counts, []))"

definition orphans_to_s3 ::
  "file_info dict \<Rightarrow> s3_object list \<Rightarrow> string \<Rightarrow> string option \<Rightarrow> (string \<times> string \<times> nat) list" where
  "orphans_to_s3 local_files s3_objects s3_prefix sync_scope_prefix =
     orphaned_keys local_files (build_s3_files s3_objects s3_prefix) sync_scope_prefix"

definition sync_to_s3 ::
  "environment \<Rightarrow> file_info dict \<Rightarrow> s3_object list \<Rightarrow> string \<Rightarrow> bool \<Rightarrow> bool \<Rightarrow>
   string option \<Rightarrow> counts \<times> event list" where
  "sync_to_s3 env local_files s3_objects s3_prefix force dry_run sync_scope_prefix =
     (let markers = s3_folder_markers s3_objects sync_scope_prefix;
          st1 = uploads_to_s3 env local_files s3_objects s3_prefix force dry_run
                  sync_scope_prefix;
          orphans = orphans_to_s3 local_files s3_objects s3_prefix sync_scope_prefix;
          st2 = fold (delete_orphan_step env dry_run) orphans st1
      in if local_files = [] \<and> length orphans > 0
         then (case fold (delete_marker_step env dry_run) markers st2 of (cnt, evs) \<Rightarrow>
                 (if folders_deleted cnt = 0 \<and> is_directory_sync sync_scope_prefix
                  then cnt\<lparr>folders_deleted := 1\<rparr> else cnt, evs))
         else st2)"

section \<open>Download: \<open>sync_from_s3\<close>\<close>

text \<open>\<open>os.path.join(a, b)\<close>.\<close>

definition join_path :: "string \<Rightarrow> string \<Rightarrow> string" where
  "join_path a b =
     (if prefix ''/'' b then b
      else if a = [] \<or> suffix ''/'' a then a @ b
      else a @ ''/'' @ b)"

datatype error = KeyError

definition download_step ::
  "environment \<Rightarrow> file_info dict \<Rightarrow> string set \<Rightarrow> bool \<Rightarrow> string \<Rightarrow> bool \<Rightarrow> bool \<Rightarrow> bool \<Rightarrow>
   string \<times> s3_file \<Rightarrow> counts \<times> event list \<Rightarrow> counts \<times> event list" where
  "download_step env local_files rename_new_paths is_file_sync local_base_path force dry_run
       folder_is_new item st =
     (case (item, st) of ((rel_path, s3_info), (cnt, evs)) \<Rightarrow>
        if rel_path \<in> rename_new_paths then (cnt, evs)
        else
          let local_file_path = (if is_file_sync then local_base_path
                                 else normpath env (join_path local_base_path rel_path)) in
          case map_of local_files rel_path of
            Some info \<Rightarrow>
              if force \<or> hash info \<noteq> s3_file_hash s3_info
              then (case download_file env (s3_file_key s3_info) local_file_path dry_run of
                      (ok, es) \<Rightarrow>
                        (if ok then cnt\<lparr>updated := updated cnt + 1\<rparr>
                         else cnt\<lparr>failed := failed cnt + 1\<rparr>, evs @ es))
              else (cnt, evs)
          | None \<Rightarrow>
              (case download_file env (s3_file_key s3_info) local_file_path dry_run of
                 (ok, es) \<Rightarrow>
                   (if ok
                    then (if folder_is_new \<and> transferred cnt + 1 = 1
                          then cnt\<lparr>transferred := transferred cnt + 1, folders_added := 1\<rparr>
                          else cnt\<lparr>transferred := transferred cnt + 1\<rparr>)
                    else cnt\<lparr>failed := failed cnt + 1\<rparr>, evs @ es)))"

text \<open>
  A rename is the deletion of the old local file followed by the download under the new
  name; it counts as renamed only when both succeed. \<open>local_files[old_local_path]\<close> raises
  \<open>KeyError\<close> for a missing key, which ends the function.
\<close>

definition rename_step ::
  "environment \<Rightarrow> file_info dict \<Rightarrow> bool \<Rightarrow> string \<Rightarrow> bool \<Rightarrow>
   string \<times> rename_info \<Rightarrow> error + counts \<times> event list \<Rightarrow> error + counts \<times> event list" where
  "rename_step env local_files is_file_sync local_base_path dry_run item st =
     (case st of
        Inl e \<Rightarrow> Inl e
      | Inr (cnt, evs) \<Rightarrow>
          (case item of (old_local_path, info) \<Rightarrow>
             let new_local = (if is_file_sync then local_base_path
                              else normpath env (join_path local_base_path (new_s3_rel_path info))) in
             case map_of local_files old_local_path of
               None \<Rightarrow> Inl KeyError
             | Some old_file_info \<Rightarrow>
                 (case delete_local_file env (path old_file_info) dry_run of (ok, es) \<Rightarrow>
                    if ok
                    then (case download_file env (new_s3_key info) new_local dry_run of
                            (ok', es') \<Rightarrow>
                              Inr (if ok' then cnt\<lparr>renamed := renamed cnt + 1\<rparr>
                                   else cnt\<lparr>failed := failed cnt + 1\<rparr>, evs @ es @ es'))
                    else Inr (cnt\<lparr>failed := failed cnt + 1\<rparr>, evs @ es))))"

text \<open>
  Orphaned local files: not in S3 and not being renamed. With a scope, a directory sync
  checks the S3 key that corresponds to the file; a file sync takes the file as it is, and so
  does a failure of \<open>os.path.relpath\<close>.
\<close>

definition orphaned_local_files ::
  "environment \<Rightarrow> file_info dict \<Rightarrow> s3_file dict \<Rightarrow> string set \<Rightarrow> string \<Rightarrow> string \<Rightarrow> bool \<Rightarrow>
   string option \<Rightarrow> (string \<times> string \<times> nat) list" where
  "orphaned_local_files env local_files s3_files rename_old_paths s3_prefix local_base_path
       is_file_sync sync_scope_prefix =
     map (\<lambda>(rel_path, info). (path info, rel_path, fsize info))
       (filter (\<lambda>(rel_path, info).
                  rel_path \<notin> rename_old_paths
                  \<and> rel_path \<notin> fst ` set s3_files
                  \<and> (case sync_scope_prefix of
                        None \<Rightarrow> True
                      | Some scope \<Rightarrow>
                          if \<not> is_file_sync
                          then (case relpath env (path info) local_base_path of
                                  Some rel_to_base \<Rightarrow>
                                    prefix scope (s3_prefix @ replace_backslash rel_to_base)
                                | None \<Rightarrow> True)
                          else True))
               local_files)"

definition delete_local_step ::
  "environment \<Rightarrow> bool \<Rightarrow> string \<times> string \<times> nat \<Rightarrow> counts \<times> event list \<Rightarrow> counts \<times> event list" where
  "delete_local_step env dry_run orphan st =
     (case (orphan, st) of ((local_file_path, rel_path, sz), (cnt, evs)) \<Rightarrow>
        case delete_local_file env local_file_path dry_run of (ok, es) \<Rightarrow>
          (if ok then cnt\<lparr>deleted := deleted cnt + 1\<rparr> else cnt\<lparr>failed := failed cnt + 1\<rparr>,
           evs @ es))"

text \<open>
  The deletion phase: unless this is a dry run, the user is always asked before local files
  are deleted; anything but \<open>yes\<close> or \<open>y\<close>, or an interrupted input, empties the list.
\<close>

definition delete_orphaned_local_files ::
  "environment \<Rightarrow> bool \<Rightarrow> (string \<times> string \<times> nat) list \<Rightarrow> counts \<times> event list \<Rightarrow>
   (string \<times> string \<times> nat) list \<times> counts \<times> event list" where
  "delete_orphaned_local_files env dry_run orphans st =
     (case st of (cnt, evs) \<Rightarrow>
        if orphans \<noteq> [] \<and> \<not> dry_run
        then (if confirmed (user env ProceedWithDeletion)
              then (orphans,
                    fold (delete_local_step env dry_run) orphans
                      (cnt, evs @ [Asked ProceedWithDeletion]))
              else ([], cnt, evs @ [Asked ProceedWithDeletion, Said SkippingFileDeletions]))
        else (orphans, fold (delete_local_step env dry_run) orphans (cnt, evs)))"

text \<open>
  \<open>sync_from_s3\<close>; \<open>bucket_name\<close> and \<open>project_root\<close> only appear in messages. It has two
  phases: the transfers (downloads, then renames) and the deletion of the orphaned local
  files.
\<close>

definition renames_from_s3 :: "file_info dict \<Rightarrow> s3_object list \<Rightarrow> string \<Rightarrow> rename_info dict" where
  "renames_from_s3 local_files s3_objects s3_prefix =
     detect_renames local_files s3_objects s3_prefix (7 / 10)
       (already_matched local_files (build_s3_files s3_objects s3_prefix))"

definition is_file_sync :: "environment \<Rightarrow> string \<Rightarrow> string option \<Rightarrow> bool" where
  "is_file_sync env local_base_path sync_scope_prefix =
     (if path_exists env local_base_path then isfile env local_base_path
      else \<not> is_directory_sync sync_scope_prefix)"

definition transfers_from_s3 ::
  "environment \<Rightarrow> file_info dict \<Rightarrow> s3_object list \<Rightarrow> string \<Rightarrow> string \<Rightarrow>
   bool \<Rightarrow> bool \<Rightarrow> string option \<Rightarrow> error + counts \<times> event list" where
  "transfers_from_s3 env local_files s3_objects s3_prefix local_base_path
       force dry_run sync_scope_prefix =
     (let s3_files = build_s3_files s3_objects s3_prefix;
          renamed_files = renames_from_s3 local_files s3_objects s3_prefix;
          rename_new_paths = (\<lambda>(old, info). new_s3_rel_path info) ` set renamed_files;
          folder_is_new = (length s3_files > 0 \<and> length local_files = 0
                           \<and> is_directory_sync sync_scope_prefix);
          file_sync = is_file_sync env local_base_path sync_scope_prefix;
          st1 = fold (download_step env local_files rename_new_paths file_sync local_base_path
                        force dry_run folder_is_new) s3_files (zero_counts, [])
      in fold (rename_step env local_files file_sync local_base_path dry_run) renamed_files
           (Inr st1))"

definition orphans_from_s3 ::
  "environment \<Rightarrow> file_info dict \<Rightarrow> s3_object list \<Rightarrow> string \<Rightarrow> string \<Rightarrow> string option \<Rightarrow>
   (string \<times> string \<times> nat) list" where
  "orphans_from_s3 env local_files s3_objects s3_prefix local_base_path sync_scope_prefix =
     orphaned_local_files env local_files (build_s3_files s3_objects s3_prefix)
       (fst ` set (renames_from_s3 local_files s3_objects s3_prefix))
       s3_prefix local_base_path (is_file_sync env local_base_path sync_scope_prefix)
       sync_scope_prefix"

definition sync_from_s3 ::
  "environment \<Rightarrow> file_info dict \<Rightarrow> s3_object list \<Rightarrow> string \<Rightarrow> string \<Rightarrow>
   bool \<Rightarrow> bool \<Rightarrow> string option \<Rightarrow> error + counts \<times> event list" where
  "sync_from_s3 env local_files s3_objects s3_prefix local_base_path
       force dry_run sync_scope_prefix =
     (case transfers_from_s3 env local_files s3_objects s3_prefix local_base_path
             force dry_run sync_scope_prefix of
        Inl e \<Rightarrow> Inl e
      | Inr st2 \<Rightarrow>
          (case delete_orphaned_local_files env dry_run
                  (orphans_from_s3 env local_files s3_objects s3_prefix local_base_path
                     sync_scope_prefix) st2 of
             (orphans, cnt, evs) \<Rightarrow>
               Inr (if length local_files > 0
                       \<and> length (build_s3_files s3_objects s3_prefix) = 0
                       \<and> length orphans > 0 \<and> is_directory_sync sync_scope_prefix
                    then cnt\<lparr>folders_deleted := 1\<rparr> else cnt, evs)))"

section \<open>Scanning the local tree\<close>

text \<open>
  \<open>os.walk(local_path)\<close>, top-down: for every directory its files, then its subdirectories
  in turn, except those pruned by \<open>dirs[:] = [d for d in dirs if ...]\<close>. Every file comes
  with \<open>root\<close>, the directory it is in, and with the names of the directories between
  \<open>local_path\<close> and the file.
\<close>

type_synonym walked = "string \<times> string list \<times> string \<times> string option \<times> nat"

fun files_of :: "string \<Rightarrow> string list \<Rightarrow> (string \<times> fs_node) list \<Rightarrow> walked list" where
  "files_of root_dir rel_dirs [] = []"
| "files_of root_dir rel_dirs ((name, File etag sz) # entries) =
     (root_dir, rel_dirs, name, etag, sz) # files_of root_dir rel_dirs entries"
| "files_of root_dir rel_dirs ((name, Dir children) # entries) = files_of root_dir rel_dirs entries"

fun walk :: "(string \<Rightarrow> bool) \<Rightarrow> string \<Rightarrow> string list \<Rightarrow> (string \<times> fs_node) list \<Rightarrow> walked list"
  and walk_dirs ::
    "(string \<Rightarrow> bool) \<Rightarrow> string \<Rightarrow> string list \<Rightarrow> (string \<times> fs_node) list \<Rightarrow> walked list" where
  "walk keep_dir root_dir rel_dirs entries =
     files_of root_dir rel_dirs entries @ walk_dirs keep_dir root_dir rel_dirs entries"
| "walk_dirs keep_dir root_dir rel_dirs [] = []"
| "walk_dirs keep_dir root_dir rel_dirs ((name, File etag sz) # entries) =
     walk_dirs keep_dir root_dir rel_dirs entries"
| "walk_dirs keep_dir root_dir rel_dirs ((name, Dir children) # entries) =
     (if keep_dir name then walk keep_dir (join_path root_dir name) (rel_dirs @ [name]) children
      else [])
     @ walk_dirs keep_dir root_dir rel_dirs entries"

text \<open>\<open>'/'.join(parts)\<close>.\<close>

fun join_slash :: "string list \<Rightarrow> string" where
  "join_slash [] = []"
| "join_slash [x] = x"
| "join_slash (x # y # ys) = x @ ''/'' @ join_slash (y # ys)"

text \<open>
  The body of the loop over the files of a walk. For a file below \<open>local_path\<close>,
  \<open>os.path.relpath(file_path, local_path)\<close> is the names from \<open>local_path\<close> down to the file,
  joined by the separator. A file without hash (unreadable) is left out. \<open>skip_ext\<close> is the set
  of ignored extensions: \<open>SKIP_EXTENSIONS\<close> in \<open>sync_to_s3.py\<close>, none in \<open>sync_from_s3.py\<close>.
\<close>

definition scan_step :: "string set \<Rightarrow> walked \<Rightarrow> file_info dict \<Rightarrow> file_info dict" where
  "scan_step skip_ext w local_files =
     (case w of (root_dir, rel_dirs, file, etag, sz) \<Rightarrow>
        if file \<in> skip_files then local_files
        else if lower (splitext_ext file) \<in> skip_ext then local_files
        else
          let file_path = join_path root_dir file;
              rel_path = replace_backslash (join_slash (rel_dirs @ [file]))
          in case etag of
               None \<Rightarrow> local_files
             | Some file_hash \<Rightarrow>
                 if file_hash = [] then local_files
                 else AList.update rel_path
                        \<lparr>hash = file_hash, fsize = sz, path = file_path\<rparr> local_files)"

definition scan_local ::
  "environment \<Rightarrow> string set \<Rightarrow> (string \<Rightarrow> bool) \<Rightarrow> string \<Rightarrow> file_info dict" where
  "scan_local env skip_ext keep_dir local_path0 =
     (let local_path = normpath env local_path0 in
      case file_system env local_path of
        None \<Rightarrow> []
      | Some (File etag sz) \<Rightarrow>
          (let filename = basename local_path in
           if filename \<notin> skip_files \<and> lower (splitext_ext filename) \<notin> skip_ext
           then (case etag of
                   None \<Rightarrow> []
                 | Some file_hash \<Rightarrow>
                     if file_hash = [] then []
                     else [(filename, \<lparr>hash = file_hash, fsize = sz, path = local_path\<rparr>)])
           else [])
      | Some (Dir entries) \<Rightarrow>
          fold (scan_step skip_ext) (walk keep_dir local_path [] entries) [])"

text \<open>\<open>scan_local_files\<close> of \<open>sync_to_s3.py\<close>: \<open>.psd\<close> files and \<open>archive\<close> directories are
  left out.\<close>

definition scan_local_files_to_s3 :: "environment \<Rightarrow> string \<Rightarrow> file_info dict" where
  "scan_local_files_to_s3 env lpath =
     scan_local env SKIP_EXTENSIONS (\<lambda>d. d \<noteq> ''archive'') lpath"

text \<open>\<open>scan_local_files\<close> of \<open>sync_from_s3.py\<close>: only the files skipped by name are left out.\<close>

definition scan_local_files_from_s3 :: "environment \<Rightarrow> string \<Rightarrow> file_info dict" where
  "scan_local_files_from_s3 env lpath = scan_local env {} (\<lambda>d. True) lpath"

section \<open>Mapping a project path to S3\<close>

definition BUCKET :: string where "BUCKET = ''llg-games''"
definition S3_PREFIX :: string where "S3_PREFIX = ''games/pull-tabs/''"

text \<open>\<open>project_path.lstrip('/').lstrip('\\')\<close>.\<close>

definition lstrip_separators :: "string \<Rightarrow> string" where
  "lstrip_separators p = dropWhile (\<lambda>c. c = backslash) (dropWhile (\<lambda>c. c = slash) p)"

text \<open>\<open>s.split('.')[-1]\<close>: what follows the last dot, or all of \<open>s\<close>.\<close>

definition after_last_dot :: "string \<Rightarrow> string" where
  "after_last_dot s = rev (takeWhile (\<lambda>c. c \<noteq> dot) (rev s))"

text \<open>
  The guess of \<open>parse_project_path\<close> for a path that does not exist locally: a file when the
  base name has an extension ``and no slashes in the basename''.
\<close>

definition is_likely_file :: "string \<Rightarrow> bool" where
  "is_likely_file project_path =
     (let project_path_clean = replace_backslash project_path;
          base = basename project_path_clean;
          has_extension = (dot \<in> set base \<and> after_last_dot base \<notin> {[], ''/''})
      in has_extension \<and> slash \<notin> set base)"

text \<open>\<open>parse_project_path\<close>, which returns \<open>(bucket_name, s3_prefix, local_path)\<close>. An override
  that is \<open>None\<close> or empty counts as absent.\<close>

definition parse_project_path ::
  "environment \<Rightarrow> string \<Rightarrow> string \<Rightarrow> string option \<Rightarrow> string option \<Rightarrow> string \<times> string \<times> string" where
  "parse_project_path env project_root project_path0 bucket_override prefix_override =
     (let project_path = lstrip_separators project_path0;
          local_path = normpath env (join_path project_root project_path);
          bucket_name = (case bucket_override of
                           None \<Rightarrow> BUCKET
                         | Some b \<Rightarrow> if b \<noteq> [] then b else BUCKET);
          with_slash = (\<lambda>p. if \<not> suffix ''/'' p then p @ ''/'' else p);
          derived =
            (if path_exists env local_path \<and> isdir env local_path
             then with_slash (S3_PREFIX @ replace_backslash project_path)
             else if path_exists env local_path \<and> isfile env local_path
             then S3_PREFIX
             else if is_likely_file project_path then S3_PREFIX
             else with_slash (S3_PREFIX @ replace_backslash project_path));
          s3_prefix = (case prefix_override of
                         None \<Rightarrow> derived
                       | Some p \<Rightarrow> if p \<noteq> [] then with_slash p else derived)
      in (bucket_name, s3_prefix, local_path))"

section \<open>Syncing one path\<close>

text \<open>
  The parts that the two \<open>sync_single_path\<close> share. When the path does not exist locally,
  it is taken for a file if its base name contains a dot and the whole path contains no
  separator.
\<close>

definition path_is_file :: "environment \<Rightarrow> string \<Rightarrow> string \<Rightarrow> bool" where
  "path_is_file env lpath project_path =
     (if path_exists env lpath then isfile env lpath
      else (let project_path_clean = lstrip_separators project_path
            in dot \<in> set (basename project_path_clean)
               \<and> slash \<notin> set (replace_backslash project_path_clean)))"

definition scope_filename :: "environment \<Rightarrow> string \<Rightarrow> string \<Rightarrow> string" where
  "scope_filename env lpath project_path =
     (if path_exists env lpath then basename lpath
      else basename (lstrip_separators project_path))"

text \<open>
  The sync scope: for a single file the S3 key of that file, for a directory the directory
  prefix.
\<close>

definition sync_scope ::
  "environment \<Rightarrow> string \<Rightarrow> string \<Rightarrow> string \<Rightarrow> string" where
  "sync_scope env lpath project_path s3_prefix =
     (if path_is_file env lpath project_path
      then s3_prefix @ scope_filename env lpath project_path
      else s3_prefix)"

text \<open>
  Listing S3: for a single file one \<open>head_object\<close> on its key (no object when the answer is
  404), for a directory all objects under the prefix. \<open>None\<close> is the failure that makes
  \<open>sync_single_path\<close> return with one failed operation.
\<close>

definition unquote_etag :: "string \<Rightarrow> string" where
  "unquote_etag etag =
     (if prefix [dquote] etag \<and> suffix [dquote] etag then butlast (tl etag) else etag)"

definition list_all_objects :: "environment \<Rightarrow> string \<Rightarrow> s3_object list option" where
  "list_all_objects env pfx =
     (if s3_unavailable env then None
      else Some (filter (\<lambda>obj. prefix pfx (Key obj)) (bucket env)))"

definition fetch_s3_objects ::
  "environment \<Rightarrow> bool \<Rightarrow> string \<Rightarrow> string \<Rightarrow> s3_object list option" where
  "fetch_s3_objects env is_file s3_prefix filename =
     (if is_file
      then (if s3_unavailable env then None
            else (case find (\<lambda>obj. Key obj = s3_prefix @ filename) (bucket env) of
                    None \<Rightarrow> Some []
                  | Some obj \<Rightarrow>
                      Some [\<lparr>Key = s3_prefix @ filename, ETag = unquote_etag (ETag obj),
                             Size = Size obj\<rparr>]))
      else list_all_objects env s3_prefix)"

text \<open>The \<open>s3_files\<close> of the preview: folder markers and keys outside the scope are left
  out.\<close>

definition scoped_s3_files :: "s3_object list \<Rightarrow> string \<Rightarrow> string \<Rightarrow> s3_file dict" where
  "scoped_s3_files s3_objects s3_prefix sync_scope_prefix =
     build_s3_files
       (filter (\<lambda>obj. \<not> (sync_scope_prefix \<noteq> [] \<and> \<not> prefix sync_scope_prefix (Key obj)))
               s3_objects)
       s3_prefix"

text \<open>\<open>project_path.lstrip('/').lstrip('\\').split('/')[-1].split('\\')[-1]\<close>.\<close>

definition folder_name_of :: "string \<Rightarrow> string" where
  "folder_name_of project_path =
     rev (takeWhile (\<lambda>c. c \<noteq> backslash)
            (rev (basename (lstrip_separators project_path))))"

text \<open>
  The display name of a folder marker: its key relative to the prefix, without trailing
  separators, and of that the last component.
\<close>

definition marker_folder_name :: "string \<Rightarrow> string \<Rightarrow> string" where
  "marker_folder_name s3_prefix folder_marker_key =
     basename (rev (dropWhile (\<lambda>c. c = slash) (rev (relative_key s3_prefix folder_marker_key))))"

record preview =
  new_files :: "string list"
  changed_files :: "string list"
  renames :: "rename_info dict"
  orphaned_files :: "string list"
  folders_to_delete :: "string list"
  folders_to_add :: "string list"

record path_result =
  totals :: counts
  plan :: "preview option"
  trace :: "event list"

subsection \<open>Upload\<close>

definition preview_to_s3 ::
  "file_info dict \<Rightarrow> s3_object list \<Rightarrow> string \<Rightarrow> string \<Rightarrow> bool \<Rightarrow> string \<Rightarrow> bool \<Rightarrow> preview" where
  "preview_to_s3 local_files s3_objects s3_prefix sync_scope_prefix is_file project_path force =
     (let s3_files = scoped_s3_files s3_objects s3_prefix sync_scope_prefix;
          new = filter (\<lambda>p. p \<notin> fst ` set s3_files) (map fst local_files);
          changed = map fst (filter (\<lambda>(rel_path, info).
                       case map_of s3_files rel_path of
                         None \<Rightarrow> False
                       | Some s3_info \<Rightarrow> force \<or> hash info \<noteq> s3_file_hash s3_info) local_files);
          orphaned = filter (\<lambda>p. p \<notin> fst ` set local_files
                                 \<and> lower (splitext_ext p) \<notin> SKIP_EXTENSIONS) (map fst s3_files);
          folder_markers = s3_folder_markers s3_objects (Some sync_scope_prefix);
          folder_name = folder_name_of project_path;
          to_delete =
            (if local_files = [] \<and> length orphaned > 0
             then fold (\<lambda>folder_marker_key names.
                          let name = marker_folder_name s3_prefix folder_marker_key
                          in if name \<noteq> [] \<and> name \<notin> set names then names @ [name] else names)
                       folder_markers
                       (if \<not> is_file \<and> folder_name \<noteq> [] then [folder_name] else [])
             else []);
          to_add =
            (if \<not> is_file \<and> local_files \<noteq> [] \<and> length s3_files = 0 \<and> length new > 0
                \<and> folder_name \<noteq> []
             then [folder_name] else [])
      in \<lparr>new_files = new, changed_files = changed, renames = [], orphaned_files = orphaned,
          folders_to_delete = to_delete, folders_to_add = to_add\<rparr>)"

definition has_changes_to_s3 :: "preview \<Rightarrow> bool" where
  "has_changes_to_s3 pv =
     (length (new_files pv) > 0 \<or> length (changed_files pv) > 0
      \<or> length (orphaned_files pv) > 0 \<or> length (folders_to_delete pv) > 0
      \<or> length (folders_to_add pv) > 0)"

text \<open>
  \<open>sync_single_path\<close> of \<open>sync_to_s3.py\<close>. With \<open>--dry-run\<close> the sync runs in dry-run mode;
  with \<open>--yes\<close> it runs at once, without preview and without confirmation; otherwise a
  dry run is shown when there are changes and the sync runs after a \<open>yes\<close>.
\<close>

definition sync_single_path_to_s3 ::
  "environment \<Rightarrow> string \<Rightarrow> string \<Rightarrow> string option \<Rightarrow> string option \<Rightarrow> bool \<Rightarrow> bool \<Rightarrow> bool \<Rightarrow>
   path_result" where
  "sync_single_path_to_s3 env project_root project_path bucket_override prefix_override
       force dry_run yes =
     (case parse_project_path env project_root project_path bucket_override prefix_override of
        (bucket_name, s3_prefix, lpath) \<Rightarrow>
          let is_file = path_is_file env lpath project_path;
              local_files = (if path_exists env lpath then scan_local_files_to_s3 env lpath
                             else []);
              filename = scope_filename env lpath project_path;
              sync_scope_prefix = sync_scope env lpath project_path s3_prefix
          in case fetch_s3_objects env is_file s3_prefix filename of
               None \<Rightarrow>
                 \<lparr>totals = zero_counts\<lparr>failed := 1\<rparr>, plan = None, trace = [Said ErrorCheckingS3]\<rparr>
             | Some s3_objects \<Rightarrow>
                 let pv = preview_to_s3 local_files s3_objects s3_prefix sync_scope_prefix is_file
                            project_path force;
                     run = (\<lambda>dry. sync_to_s3 env local_files s3_objects s3_prefix force dry
                                    (Some sync_scope_prefix))
                 in if dry_run
                    then \<lparr>totals = fst (run True), plan = Some pv, trace = snd (run True)\<rparr>
                    else if yes
                    then \<lparr>totals = fst (run False), plan = Some pv, trace = snd (run False)\<rparr>
                    else if has_changes_to_s3 pv
                    then (if \<not> confirmed (user env ProceedWithSync)
                          then \<lparr>totals = zero_counts, plan = Some pv,
                                trace = snd (run True) @ [Asked ProceedWithSync, Said Skipped]\<rparr>
                          else \<lparr>totals = fst (run False), plan = Some pv,
                                trace = snd (run True) @ [Asked ProceedWithSync]
                                        @ snd (run False)\<rparr>)
                    else \<lparr>totals = zero_counts, plan = Some pv, trace = [Said NoChangesNeeded]\<rparr>)"

subsection \<open>Download\<close>

definition preview_from_s3 ::
  "file_info dict \<Rightarrow> s3_object list \<Rightarrow> string \<Rightarrow> string \<Rightarrow> bool \<Rightarrow> string \<Rightarrow> preview" where
  "preview_from_s3 local_files s3_objects s3_prefix sync_scope_prefix is_file project_path =
     (let s3_files = scoped_s3_files s3_objects s3_prefix sync_scope_prefix;
          new = filter (\<lambda>p. p \<notin> fst ` set local_files) (map fst s3_files);
          changed = map fst (filter (\<lambda>(rel_path, info).
                       case map_of s3_files rel_path of
                         None \<Rightarrow> False
                       | Some s3_info \<Rightarrow> hash info \<noteq> s3_file_hash s3_info) local_files);
          all_renames = detect_renames local_files s3_objects s3_prefix (7 / 10)
                          (already_matched local_files s3_files);
          in_scope_renames =
            filter (\<lambda>(old_local_path, info).
                      sync_scope_prefix = [] \<or> prefix sync_scope_prefix (new_s3_key info))
                   all_renames;
          orphaned = filter (\<lambda>p. p \<notin> fst ` set s3_files \<and> p \<notin> fst ` set in_scope_renames)
                            (map fst local_files);
          folder_name = folder_name_of project_path;
          to_delete =
            (if length s3_files = 0 \<and> length orphaned > 0 \<and> \<not> is_file \<and> folder_name \<noteq> []
             then [folder_name] else []);
          to_add =
            (if \<not> is_file \<and> length s3_files > 0 \<and> length local_files = 0 \<and> length new > 0
                \<and> folder_name \<noteq> []
             then [folder_name] else [])
      in \<lparr>new_files = new, changed_files = changed, renames = in_scope_renames,
          orphaned_files = orphaned, folders_to_delete = to_delete, folders_to_add = to_add\<rparr>)"

definition has_changes_from_s3 :: "preview \<Rightarrow> bool" where
  "has_changes_from_s3 pv =
     (length (new_files pv) > 0 \<or> length (changed_files pv) > 0
      \<or> length (orphaned_files pv) > 0 \<or> length (renames pv) > 0
      \<or> length (folders_to_delete pv) > 0 \<or> length (folders_to_add pv) > 0)"

text \<open>
  \<open>sync_single_path\<close> of \<open>sync_from_s3.py\<close>. With \<open>--yes\<close> the sync runs at once, ``but
  deletions will still ask for confirmation'' inside \<open>sync_from_s3\<close>. An exception raised by
  \<open>sync_from_s3\<close> ends the function.
\<close>

definition sync_single_path_from_s3 ::
  "environment \<Rightarrow> string \<Rightarrow> string \<Rightarrow> string option \<Rightarrow> string option \<Rightarrow> bool \<Rightarrow> bool \<Rightarrow> bool \<Rightarrow>
   error + path_result" where
  "sync_single_path_from_s3 env project_root project_path bucket_override prefix_override
       force dry_run yes =
     (case parse_project_path env project_root project_path bucket_override prefix_override of
        (bucket_name, s3_prefix, lpath) \<Rightarrow>
          let is_file = path_is_file env lpath project_path;
              local_files = (if path_exists env lpath then scan_local_files_from_s3 env lpath
                             else []);
              filename = scope_filename env lpath project_path;
              sync_scope_prefix = sync_scope env lpath project_path s3_prefix
          in case fetch_s3_objects env is_file s3_prefix filename of
               None \<Rightarrow>
                 Inr \<lparr>totals = zero_counts\<lparr>failed := 1\<rparr>, plan = None,
                      trace = [Said ErrorCheckingS3]\<rparr>
             | Some s3_objects \<Rightarrow>
                 let pv = preview_from_s3 local_files s3_objects s3_prefix sync_scope_prefix
                            is_file project_path;
                     run = (\<lambda>dry. sync_from_s3 env local_files s3_objects s3_prefix lpath force dry
                                    (Some sync_scope_prefix))
                 in if dry_run
                    then (case run True of
                            Inl e \<Rightarrow> Inl e
                          | Inr (cnt, evs) \<Rightarrow> Inr \<lparr>totals = cnt, plan = Some pv, trace = evs\<rparr>)
                    else if yes
                    then (case run False of
                            Inl e \<Rightarrow> Inl e
                          | Inr (cnt, evs) \<Rightarrow> Inr \<lparr>totals = cnt, plan = Some pv, trace = evs\<rparr>)
                    else if has_changes_from_s3 pv
                    then (case run True of
                            Inl e \<Rightarrow> Inl e
                          | Inr (cnt0, evs0) \<Rightarrow>
                              if \<not> confirmed (user env ProceedWithSync)
                              then Inr \<lparr>totals = zero_counts, plan = Some pv,
                                        trace = evs0 @ [Asked ProceedWithSync, Said Skipped]\<rparr>
                              else (case run False of
                                      Inl e \<Rightarrow> Inl e
                                    | Inr (cnt, evs) \<Rightarrow>
                                        Inr \<lparr>totals = cnt, plan = Some pv,
                                             trace = evs0 @ [Asked ProceedWithSync] @ evs\<rparr>))
                    else Inr \<lparr>totals = zero_counts, plan = Some pv,
                              trace = [Said NoChangesNeeded]\<rparr>)"

section \<open>The calls made by a sync\<close>

text \<open>The events of each loop do not depend on the counters.\<close>

definition upload_events ::
  "string \<Rightarrow> s3_file dict \<Rightarrow> string set \<Rightarrow> bool \<Rightarrow> bool \<Rightarrow> string \<times> file_info \<Rightarrow> event list" where
  "upload_events s3_prefix s3_files matched force dry_run item =
     (case item of (rel_path, info) \<Rightarrow>
        if dry_run \<or> (rel_path \<in> matched \<and> \<not> force) then []
        else (case map_of s3_files rel_path of
                Some s3_info \<Rightarrow>
                  if force \<or> hash info \<noteq> s3_file_hash s3_info
                  then [Call (UploadFile (path info)
                          (if s3_prefix \<noteq> [] then s3_prefix @ rel_path else rel_path))]
                  else []
              | None \<Rightarrow>
                  [Call (UploadFile (path info)
                     (if s3_prefix \<noteq> [] then s3_prefix @ rel_path else rel_path))]))"

lemma snd_upload_step:
  "snd (upload_step env s3_prefix s3_files matched force dry_run folder_is_new item st)
     = snd st @ upload_events s3_prefix s3_files matched force dry_run item"
  by (cases st; cases item)
     (auto simp: upload_step_def upload_events_def upload_file_def Let_def split: option.splits)

lemma snd_fold_upload_step:
  "snd (fold (upload_step env s3_prefix s3_files matched force dry_run folder_is_new) items st)
     = snd st @ concat (map (upload_events s3_prefix s3_files matched force dry_run) items)"
  by (induction items arbitrary: st) (simp_all add: snd_upload_step)

lemma snd_delete_orphan_step:
  "snd (delete_orphan_step env dry_run orphan st)
     = snd st @ (if dry_run then [] else [Call (DeleteObject (fst orphan))])"
  by (cases st; cases orphan) (auto simp: delete_orphan_step_def delete_s3_object_def)

lemma snd_fold_delete_orphan_step:
  "snd (fold (delete_orphan_step env dry_run) orphans st)
     = snd st @ (if dry_run then [] else map (\<lambda>orphan. Call (DeleteObject (fst orphan))) orphans)"
  by (induction orphans arbitrary: st) (simp_all add: snd_delete_orphan_step)

lemma snd_delete_marker_step:
  "snd (delete_marker_step env dry_run k st)
     = snd st @ (if dry_run then [] else [Call (DeleteObject k)])"
  by (cases st) (auto simp: delete_marker_step_def delete_s3_object_def)

lemma snd_fold_delete_marker_step:
  "snd (fold (delete_marker_step env dry_run) markers st)
     = snd st @ (if dry_run then [] else map (\<lambda>k. Call (DeleteObject k)) markers)"
  by (induction markers arbitrary: st) (simp_all add: snd_delete_marker_step)

lemma snd_uploads_to_s3:
  "snd (uploads_to_s3 env local_files s3_objects s3_prefix force dry_run scope)
     = concat (map (upload_events s3_prefix (build_s3_files s3_objects s3_prefix)
                      (already_matched local_files (build_s3_files s3_objects s3_prefix))
                      force dry_run) local_files)"
  by (simp add: uploads_to_s3_def Let_def snd_fold_upload_step)

lemma snd_case_prod_keep: "snd (case p of (a, b) \<Rightarrow> (g a, b)) = snd p"
  by (cases p) simp

lemma snd_sync_to_s3:
  "snd (sync_to_s3 env local_files s3_objects s3_prefix force dry_run scope)
     = snd (uploads_to_s3 env local_files s3_objects s3_prefix force dry_run scope)
       @ (if dry_run then []
          else map (\<lambda>orphan. Call (DeleteObject (fst orphan)))
                 (orphans_to_s3 local_files s3_objects s3_prefix scope)
               @ (if local_files = [] \<and> orphans_to_s3 local_files s3_objects s3_prefix scope \<noteq> []
                  then map (\<lambda>k. Call (DeleteObject k)) (s3_folder_markers s3_objects scope)
                  else []))"
  unfolding sync_to_s3_def Let_def
  by (auto simp: snd_case_prod_keep snd_fold_delete_orphan_step snd_fold_delete_marker_step)

definition download_events ::
  "environment \<Rightarrow> file_info dict \<Rightarrow> string set \<Rightarrow> bool \<Rightarrow> string \<Rightarrow> bool \<Rightarrow> bool \<Rightarrow>
   string \<times> s3_file \<Rightarrow> event list" where
  "download_events env local_files rename_new_paths file_sync local_base_path force dry_run item =
     (case item of (rel_path, s3_info) \<Rightarrow>
        if dry_run \<or> rel_path \<in> rename_new_paths then []
        else (case map_of local_files rel_path of
                Some info \<Rightarrow>
                  if force \<or> hash info \<noteq> s3_file_hash s3_info
                  then [Call (DownloadFile (s3_file_key s3_info)
                          (if file_sync then local_base_path
                           else normpath env (join_path local_base_path rel_path)))]
                  else []
              | None \<Rightarrow>
                  [Call (DownloadFile (s3_file_key s3_info)
                     (if file_sync then local_base_path
                      else normpath env (join_path local_base_path rel_path)))]))"

lemma snd_download_step:
  "snd (download_step env local_files rename_new_paths file_sync local_base_path force dry_run
          folder_is_new item st)
     = snd st @ download_events env local_files rename_new_paths file_sync local_base_path
                  force dry_run item"
  by (cases st; cases item)
     (auto simp: download_step_def download_events_def download_file_def Let_def
           split: option.splits)

lemma snd_fold_download_step:
  "snd (fold (download_step env local_files rename_new_paths file_sync local_base_path force
                dry_run folder_is_new) items st)
     = snd st @ concat (map (download_events env local_files rename_new_paths file_sync
                               local_base_path force dry_run) items)"
  by (induction items arbitrary: st) (simp_all add: snd_download_step)

text \<open>The calls of one rename: the deletion of the old local file and, when that succeeded,
  the download under the new name.\<close>

definition rename_events ::
  "environment \<Rightarrow> file_info dict \<Rightarrow> bool \<Rightarrow> string \<Rightarrow> bool \<Rightarrow> string \<times> rename_info \<Rightarrow> event list" where
  "rename_events env local_files file_sync local_base_path dry_run item =
     (case item of (old_local_path, info) \<Rightarrow>
        if dry_run then []
        else (case map_of local_files old_local_path of
                None \<Rightarrow> []
              | Some old_file_info \<Rightarrow>
                  Call (DeleteLocalFile (path old_file_info))
                  # (if client env (DeleteLocalFile (path old_file_info))
                     then [Call (DownloadFile (new_s3_key info)
                             (if file_sync then local_base_path
                              else normpath env (join_path local_base_path (new_s3_rel_path info))))]
                     else [])))"

lemma rename_step_Inr:
  assumes "fst item \<in> fst ` set local_files"
  shows "\<exists>cnt'. rename_step env local_files file_sync local_base_path dry_run item (Inr (cnt, evs))
           = Inr (cnt', evs @ rename_events env local_files file_sync local_base_path dry_run item)"
proof -
  obtain old info where item: "item = (old, info)" by (cases item)
  from assms obtain fi where fi: "map_of local_files old = Some fi"
    by (auto simp: item weak_map_of_SomeI map_of_eq_None_iff dest!: not_None_eq[THEN iffD1]
             intro: exI) (metis domD domI dom_map_of_conv_image_fst image_eqI fst_conv)
  show ?thesis
    by (auto simp: item fi rename_step_def rename_events_def delete_local_file_def
          download_file_def Let_def)
qed

lemma fold_rename_step_Inr:
  assumes "fst ` set items \<subseteq> fst ` set local_files"
  shows "\<exists>cnt'. fold (rename_step env local_files file_sync local_base_path dry_run) items
              (Inr (cnt, evs))
           = Inr (cnt', evs @ concat (map (rename_events env local_files file_sync
                                             local_base_path dry_run) items))"
  using assms
proof (induction items arbitrary: cnt evs)
  case Nil
  then show ?case by simp
next
  case (Cons item items)
  from Cons.prems have 1: "fst item \<in> fst ` set local_files"
    and 2: "fst ` set items \<subseteq> fst ` set local_files" by auto
  from rename_step_Inr[OF 1, of env file_sync local_base_path dry_run cnt evs]
  obtain c1 where s: "rename_step env local_files file_sync local_base_path dry_run item
      (Inr (cnt, evs))
      = Inr (c1, evs @ rename_events env local_files file_sync local_base_path dry_run item)"
    by blast
  from Cons.IH[OF 2, of c1 "evs @ rename_events env local_files file_sync local_base_path dry_run item"]
  show ?case by (simp add: s)
qed

lemma renames_from_s3_sources:
  "fst ` set (renames_from_s3 local_files s3_objects s3_prefix) \<subseteq> fst ` set local_files"
proof
  fix old assume "old \<in> fst ` set (renames_from_s3 local_files s3_objects s3_prefix)"
  then obtain info where "(old, info) \<in> set (renames_from_s3 local_files s3_objects s3_prefix)"
    by auto
  from detect_renames_origin[OF this[unfolded renames_from_s3_def]] obtain c where
    c: "c \<in> set (potential_renames local_files s3_objects s3_prefix (7 / 10)
                   (already_matched local_files (build_s3_files s3_objects s3_prefix)))"
       "old = local_path c" by blast
  from potential_renames_char[OF c(1)] c(2) show "old \<in> fst ` set local_files"
    by force
qed

text \<open>The transfer phase never raises, and makes the calls of the downloads followed by those
  of the renames.\<close>

definition transfer_events ::
  "environment \<Rightarrow> file_info dict \<Rightarrow> s3_object list \<Rightarrow> string \<Rightarrow> string \<Rightarrow> bool \<Rightarrow> bool \<Rightarrow>
   string option \<Rightarrow> event list" where
  "transfer_events env local_files s3_objects s3_prefix local_base_path force dry_run scope =
     concat (map (download_events env local_files
                    ((\<lambda>(old, info). new_s3_rel_path info)
                       ` set (renames_from_s3 local_files s3_objects s3_prefix))
                    (is_file_sync env local_base_path scope) local_base_path force dry_run)
               (build_s3_files s3_objects s3_prefix))
     @ concat (map (rename_events env local_files (is_file_sync env local_base_path scope)
                      local_base_path dry_run)
                 (renames_from_s3 local_files s3_objects s3_prefix))"

lemma downloads_then_renames:
  assumes sub: "fst ` set items \<subseteq> fst ` set local_files"
  shows "\<exists>c. fold (rename_step env local_files file_sync local_base_path dry_run) items
              (Inr (fold (download_step env local_files new_paths file_sync local_base_path
                            force dry_run folder_is_new) s3_files (z, [])))
     = Inr (c, concat (map (download_events env local_files new_paths file_sync local_base_path
                              force dry_run) s3_files)
               @ concat (map (rename_events env local_files file_sync local_base_path dry_run)
                           items))"
proof -
  obtain c1 e1 where st: "fold (download_step env local_files new_paths file_sync local_base_path
                            force dry_run folder_is_new) s3_files (z, []) = (c1, e1)"
    by (cases "fold (download_step env local_files new_paths file_sync local_base_path
                            force dry_run folder_is_new) s3_files (z, [])")
  have e1: "e1 = concat (map (download_events env local_files new_paths file_sync local_base_path
                              force dry_run) s3_files)"
    using snd_fold_download_step[of env local_files new_paths file_sync local_base_path
            force dry_run folder_is_new s3_files "(z, [])"]
    by (simp add: st)
  from fold_rename_step_Inr[OF sub, where cnt = c1 and evs = e1
      and env = env and file_sync = file_sync and local_base_path = local_base_path
      and dry_run = dry_run]
  show ?thesis unfolding st e1 .
qed

lemma transfers_from_s3_returns:
  "\<exists>cnt. transfers_from_s3 env local_files s3_objects s3_prefix local_base_path force dry_run scope
     = Inr (cnt, transfer_events env local_files s3_objects s3_prefix local_base_path force
                   dry_run scope)"
  unfolding transfers_from_s3_def Let_def transfer_events_def
  by (rule downloads_then_renames[OF renames_from_s3_sources])

lemma snd_delete_local_step:
  "snd (delete_local_step env dry_run orphan st)
     = snd st @ (if dry_run then [] else [Call (DeleteLocalFile (fst orphan))])"
  by (cases st; cases orphan) (auto simp: delete_local_step_def delete_local_file_def)

lemma snd_fold_delete_local_step:
  "snd (fold (delete_local_step env dry_run) orphans st)
     = snd st @ (if dry_run then []
                 else map (\<lambda>orphan. Call (DeleteLocalFile (fst orphan))) orphans)"
  by (induction orphans arbitrary: st) (simp_all add: snd_delete_local_step)

text \<open>The events of the deletion phase of the download.\<close>

definition deletion_events ::
  "environment \<Rightarrow> bool \<Rightarrow> (string \<times> string \<times> nat) list \<Rightarrow> event list" where
  "deletion_events env dry_run orphans =
     (if orphans = [] \<or> dry_run then []
      else if confirmed (user env ProceedWithDeletion)
      then Asked ProceedWithDeletion
           # map (\<lambda>orphan. Call (DeleteLocalFile (fst orphan))) orphans
      else [Asked ProceedWithDeletion, Said SkippingFileDeletions])"

lemma delete_orphaned_local_files_events:
  "snd (snd (delete_orphaned_local_files env dry_run orphans (cnt, evs)))
     = evs @ deletion_events env dry_run orphans"
  by (auto simp: delete_orphaned_local_files_def deletion_events_def snd_fold_delete_local_step)

lemma delete_orphaned_local_files_declined:
  assumes "orphans \<noteq> []" "\<not> dry_run" "\<not> confirmed (user env ProceedWithDeletion)"
  shows "delete_orphaned_local_files env dry_run orphans (cnt, evs)
           = ([], cnt, evs @ [Asked ProceedWithDeletion, Said SkippingFileDeletions])"
  using assms by (simp add: delete_orphaned_local_files_def)

lemma sync_from_s3_returns:
  "\<exists>cnt. sync_from_s3 env local_files s3_objects s3_prefix local_base_path force dry_run scope
     = Inr (cnt, transfer_events env local_files s3_objects s3_prefix local_base_path force
                   dry_run scope
                 @ deletion_events env dry_run
                     (orphans_from_s3 env local_files s3_objects s3_prefix local_base_path scope))"
proof -
  obtain c where t: "transfers_from_s3 env local_files s3_objects s3_prefix local_base_path
      force dry_run scope
     = Inr (c, transfer_events env local_files s3_objects s3_prefix local_base_path force
                   dry_run scope)"
    using transfers_from_s3_returns by blast
  let ?d = "delete_orphaned_local_files env dry_run
              (orphans_from_s3 env local_files s3_objects s3_prefix local_base_path scope)
              (c, transfer_events env local_files s3_objects s3_prefix local_base_path force
                   dry_run scope)"
  obtain os c2 e2 where d: "?d = (os, c2, e2)" by (cases ?d)
  have "e2 = snd (snd ?d)" by (simp add: d)
  then have e2: "e2 = transfer_events env local_files s3_objects s3_prefix local_base_path force
                   dry_run scope
                 @ deletion_events env dry_run
                     (orphans_from_s3 env local_files s3_objects s3_prefix local_base_path scope)"
    by (simp only: delete_orphaned_local_files_events)
  show ?thesis
    unfolding sync_from_s3_def t sum.case d prod.case e2 by blast
qed

lemma sync_from_s3_declined:
  assumes "orphans_from_s3 env local_files s3_objects s3_prefix local_base_path scope \<noteq> []"
    and "\<not> confirmed (user env ProceedWithDeletion)"
    and "transfers_from_s3 env local_files s3_objects s3_prefix local_base_path force False scope
           = Inr (cnt, evs)"
  shows "sync_from_s3 env local_files s3_objects s3_prefix local_base_path force False scope
           = Inr (cnt, evs @ [Asked ProceedWithDeletion, Said SkippingFileDeletions])"
  unfolding sync_from_s3_def assms(3) sum.case
  by (simp add: delete_orphaned_local_files_declined[OF assms(1) _ assms(2)])

lemma transfer_events_calls:
  "e \<in> set (transfer_events env local_files s3_objects s3_prefix local_base_path force dry_run scope)
     \<Longrightarrow> \<exists>c. e = Call c"
  by (auto simp: transfer_events_def download_events_def rename_events_def
           split: if_splits option.splits)

lemma transfer_events_dry_run:
  "transfer_events env local_files s3_objects s3_prefix local_base_path force True scope = []"
  by (auto simp: transfer_events_def download_events_def rename_events_def)

lemma sync_to_s3_dry_run:
  "snd (sync_to_s3 env local_files s3_objects s3_prefix force True scope) = []"
  by (auto simp: snd_sync_to_s3 snd_uploads_to_s3 upload_events_def)

text \<open>The plan and the dry run of \<open>sync_single_path\<close>.\<close>

definition planned_to_s3 ::
  "environment \<Rightarrow> string \<Rightarrow> string \<Rightarrow> string option \<Rightarrow> string option \<Rightarrow> bool \<Rightarrow> preview option" where
  "planned_to_s3 env project_root project_path bucket_override prefix_override force =
     (case parse_project_path env project_root project_path bucket_override prefix_override of
        (bucket_name, s3_prefix, lpath) \<Rightarrow>
          (case fetch_s3_objects env (path_is_file env lpath project_path) s3_prefix
                  (scope_filename env lpath project_path) of
             None \<Rightarrow> None
           | Some s3_objects \<Rightarrow>
               Some (preview_to_s3
                       (if path_exists env lpath then scan_local_files_to_s3 env lpath else [])
                       s3_objects s3_prefix (sync_scope env lpath project_path s3_prefix)
                       (path_is_file env lpath project_path) project_path force)))"

lemma plan_sync_single_path_to_s3:
  "plan (sync_single_path_to_s3 env project_root project_path bucket_override prefix_override
           force dry_run yes)
     = planned_to_s3 env project_root project_path bucket_override prefix_override force"
  by (auto simp: sync_single_path_to_s3_def planned_to_s3_def Let_def
           split: prod.splits option.splits)

lemma dry_run_sync_single_path_to_s3:
  "filter mutating (trace (sync_single_path_to_s3 env project_root project_path bucket_override
                             prefix_override force True yes)) = []"
  by (auto simp: sync_single_path_to_s3_def Let_def sync_to_s3_dry_run mutating_def
           split: prod.splits option.splits)

definition planned_from_s3 ::
  "environment \<Rightarrow> string \<Rightarrow> string \<Rightarrow> string option \<Rightarrow> string option \<Rightarrow> preview option" where
  "planned_from_s3 env project_root project_path bucket_override prefix_override =
     (case parse_project_path env project_root project_path bucket_override prefix_override of
        (bucket_name, s3_prefix, lpath) \<Rightarrow>
          (case fetch_s3_objects env (path_is_file env lpath project_path) s3_prefix
                  (scope_filename env lpath project_path) of
             None \<Rightarrow> None
           | Some s3_objects \<Rightarrow>
               Some (preview_from_s3
                       (if path_exists env lpath then scan_local_files_from_s3 env lpath else [])
                       s3_objects s3_prefix (sync_scope env lpath project_path s3_prefix)
                       (path_is_file env lpath project_path) project_path)))"

lemma sync_from_s3_dry_run:
  "\<exists>cnt. sync_from_s3 env local_files s3_objects s3_prefix local_base_path force True scope
          = Inr (cnt, [])"
  using sync_from_s3_returns[of env local_files s3_objects s3_prefix local_base_path force True scope]
  by (simp add: transfer_events_dry_run deletion_events_def)

lemma sync_single_path_from_s3_returns:
  "\<exists>r. sync_single_path_from_s3 env project_root project_path bucket_override prefix_override
          force dry_run yes = Inr r
       \<and> plan r = planned_from_s3 env project_root project_path bucket_override prefix_override
       \<and> (dry_run \<longrightarrow> filter mutating (trace r) = [])"
proof -
  obtain b pfx lp where p: "parse_project_path env project_root project_path bucket_override
      prefix_override = (b, pfx, lp)" by (cases "parse_project_path env project_root project_path
      bucket_override prefix_override")
  define lf where "lf = (if path_exists env lp then scan_local_files_from_s3 env lp else [])"
  define sc where "sc = sync_scope env lp project_path pfx"
  show ?thesis
  proof (cases "fetch_s3_objects env (path_is_file env lp project_path) pfx
                  (scope_filename env lp project_path)")
    case None
    then show ?thesis
      by (simp add: sync_single_path_from_s3_def planned_from_s3_def p Let_def mutating_def)
  next
    case (Some so)
    obtain c0 where d: "sync_from_s3 env lf so pfx lp force True (Some sc) = Inr (c0, [])"
      using sync_from_s3_dry_run by blast
    obtain c1 e1 where a: "sync_from_s3 env lf so pfx lp force False (Some sc) = Inr (c1, e1)"
      using sync_from_s3_returns by blast
    show ?thesis
      by (simp add: sync_single_path_from_s3_def planned_from_s3_def p Let_def Some
            lf_def[symmetric] sc_def[symmetric] d a mutating_def)
  qed
qed

section \<open>What a run can delete\<close>

text \<open>What \<open>build_s3_files\<close> contains.\<close>

lemma in_set_update: "(p, s) \<in> set (AList.update k v al) \<Longrightarrow> (p, s) \<in> set al \<or> (p = k \<and> s = v)"
  by (induction al) (auto split: if_splits)

lemma build_s3_files_fold:
  "distinct (map fst m) \<Longrightarrow>
   distinct (map fst (fold (\<lambda>obj s3_files.
             if is_folder_marker obj then s3_files
             else AList.update (relative_key s3_prefix (Key obj))
                    \<lparr>s3_file_key = Key obj, s3_file_hash = s3_etag obj, s3_file_size = Size obj\<rparr>
                    s3_files) objs m))
   \<and> (\<forall>p s. (p, s) \<in> set (fold (\<lambda>obj s3_files.
             if is_folder_marker obj then s3_files
             else AList.update (relative_key s3_prefix (Key obj))
                    \<lparr>s3_file_key = Key obj, s3_file_hash = s3_etag obj, s3_file_size = Size obj\<rparr>
                    s3_files) objs m) \<longrightarrow>
          (p, s) \<in> set m \<or>
          (\<exists>obj \<in> set objs. \<not> is_folder_marker obj \<and> p = relative_key s3_prefix (Key obj)
             \<and> s = \<lparr>s3_file_key = Key obj, s3_file_hash = s3_etag obj, s3_file_size = Size obj\<rparr>))"
proof (induction objs arbitrary: m)
  case Nil
  then show ?case by simp
next
  case (Cons obj objs)
  show ?case
  proof (cases "is_folder_marker obj")
    case True
    with Cons show ?thesis by auto
  next
    case False
    let ?m = "AList.update (relative_key s3_prefix (Key obj))
                    \<lparr>s3_file_key = Key obj, s3_file_hash = s3_etag obj, s3_file_size = Size obj\<rparr> m"
    have d: "distinct (map fst ?m)" using Cons.prems by (simp add: distinct_update)
    have m: "(p, s) \<in> set ?m \<Longrightarrow> (p, s) \<in> set m \<or>
          (p = relative_key s3_prefix (Key obj)
             \<and> s = \<lparr>s3_file_key = Key obj, s3_file_hash = s3_etag obj, s3_file_size = Size obj\<rparr>)"
      for p s using in_set_update[of p s] by blast
    from Cons.IH[OF d] False m show ?thesis by (simp) blast
  qed
qed

lemma distinct_build_s3_files: "distinct (map fst (build_s3_files s3_objects s3_prefix))"
  unfolding build_s3_files_def using build_s3_files_fold[where m = "[]"] by simp

lemma build_s3_files_entry:
  assumes "(p, s) \<in> set (build_s3_files s3_objects s3_prefix)"
  shows "\<exists>obj \<in> set s3_objects. \<not> is_folder_marker obj \<and> p = relative_key s3_prefix (Key obj)
             \<and> s = \<lparr>s3_file_key = Key obj, s3_file_hash = s3_etag obj, s3_file_size = Size obj\<rparr>"
  using assms build_s3_files_fold[where m = "[]" and ?s3_prefix = s3_prefix and objs = s3_objects]
  unfolding build_s3_files_def by simp

lemma build_s3_files_key:
  assumes "(p, s) \<in> set (build_s3_files s3_objects s3_prefix)"
  shows "p = relative_key s3_prefix (s3_file_key s)"
  using build_s3_files_entry[OF assms] by auto

lemma relative_key_prefix: "prefix s3_prefix key \<Longrightarrow> s3_prefix @ relative_key s3_prefix key = key"
  by (auto simp: relative_key_def prefix_def)


text \<open>What a run lists in S3 lies within its scope and below its prefix.\<close>

lemma fetched_in_scope:
  assumes "fetch_s3_objects env (path_is_file env lp pp) pfx (scope_filename env lp pp) = Some so"
    and "obj \<in> set so"
  shows "prefix (sync_scope env lp pp pfx) (Key obj) \<and> prefix pfx (Key obj)"
  using assms
  by (auto simp: fetch_s3_objects_def sync_scope_def list_all_objects_def
           split: if_splits option.splits)

lemma deletions_of_sync_to_s3:
  assumes "Call (DeleteObject k) \<in> set (snd (sync_to_s3 env local_files s3_objects s3_prefix force
                                               dry_run scope))"
  shows "in_scope scope k"
  using assms
  by (auto simp: snd_sync_to_s3 snd_uploads_to_s3 upload_events_def orphans_to_s3_def
        orphaned_keys_def s3_folder_markers_def split: if_splits option.splits)

lemma scoped_s3_files_entry:
  assumes "(p, s) \<in> set (scoped_s3_files s3_objects s3_prefix sc)"
  shows "\<exists>obj \<in> set s3_objects. \<not> is_folder_marker obj \<and> (sc = [] \<or> prefix sc (Key obj))
           \<and> p = relative_key s3_prefix (Key obj)
           \<and> s = \<lparr>s3_file_key = Key obj, s3_file_hash = s3_etag obj, s3_file_size = Size obj\<rparr>"
  using build_s3_files_entry[OF assms[unfolded scoped_s3_files_def]] by auto

lemma orphaned_files_preview_to_s3:
  assumes "p \<in> set (orphaned_files (preview_to_s3 local_files s3_objects s3_prefix sc is_file
                                       project_path force))"
  shows "p \<notin> fst ` set local_files \<and> lower (splitext_ext p) \<notin> SKIP_EXTENSIONS
         \<and> (\<exists>obj \<in> set s3_objects. \<not> is_folder_marker obj \<and> (sc = [] \<or> prefix sc (Key obj))
               \<and> p = relative_key s3_prefix (Key obj))"
proof -
  from assms obtain s where "(p, s) \<in> set (scoped_s3_files s3_objects s3_prefix sc)"
    and "p \<notin> fst ` set local_files" and "lower (splitext_ext p) \<notin> SKIP_EXTENSIONS"
    by (auto simp: preview_to_s3_def Let_def)
  with scoped_s3_files_entry[OF this(1)] show ?thesis by blast
qed

text \<open>What a run finds locally corresponds to keys within its scope.\<close>

lemma scan_local_file:
  assumes "normpath env lp = lp" and "file_system env lp = Some (File etag sz)"
    and "(rel, info) \<in> set (scan_local env skip_ext keep lp)"
  shows "rel = basename lp"
proof -
  have eq: "scan_local env skip_ext keep lp =
          (if basename lp \<notin> skip_files \<and> lower (splitext_ext (basename lp)) \<notin> skip_ext
           then (case etag of
                   None \<Rightarrow> []
                 | Some file_hash \<Rightarrow>
                     if file_hash = [] then []
                     else [(basename lp, \<lparr>hash = file_hash, fsize = sz, path = lp\<rparr>)])
           else [])"
    unfolding scan_local_def by (simp only: assms(1,2) Let_def option.case fs_node.case)
  show ?thesis
  proof (cases "basename lp \<notin> skip_files \<and> lower (splitext_ext (basename lp)) \<notin> skip_ext")
    case False
    then show ?thesis using assms(3) by (simp only: eq if_False list.set empty_iff)
  next
    case c: True
    show ?thesis
    proof (cases etag)
      case None
      then show ?thesis using assms(3) c by (simp add: eq)
    next
      case (Some file_hash)
      then show ?thesis using assms(3) c by (cases "file_hash = []") (simp_all add: eq)
    qed
  qed
qed

lemma scanned_in_scope:
  assumes idem: "\<forall>p. normpath env (normpath env p) = normpath env p"
    and parse: "parse_project_path env project_root project_path bucket_override prefix_override
                  = (bucket_name, s3_prefix, lpath)"
    and mem: "(rel, info) \<in> set (if path_exists env lpath then scan_local env skip keep lpath
                                  else [])"
  shows "prefix (sync_scope env lpath project_path s3_prefix) (s3_prefix @ rel)"
proof -
  from parse have "lpath = normpath env (join_path project_root (lstrip_separators project_path))"
    by (simp add: parse_project_path_def Let_def)
  with idem have n: "normpath env lpath = lpath" by metis
  from mem have ex: "path_exists env lpath" by (simp split: if_splits)
  then obtain node where node: "file_system env lpath = Some node"
    by (auto simp: path_exists_def)
  show ?thesis
  proof (cases node)
    case (File etag sz)
    with node ex have "sync_scope env lpath project_path s3_prefix = s3_prefix @ basename lpath"
      by (simp add: sync_scope_def path_is_file_def isfile_def scope_filename_def)
    moreover from mem ex have "(rel, info) \<in> set (scan_local env skip keep lpath)" by simp
    then have "rel = basename lpath"
      using scan_local_file[OF n node[unfolded File]] by blast
    ultimately show ?thesis by simp
  next
    case (Dir entries)
    with node ex have "sync_scope env lpath project_path s3_prefix = s3_prefix"
      by (simp add: sync_scope_def path_is_file_def isfile_def)
    then show ?thesis by simp
  qed
qed

lemma deletions_of_rename_events:
  assumes "Call (DeleteLocalFile f) \<in> set (rename_events env local_files file_sync local_base_path
                                              dry_run item)"
  shows "\<exists>(rel, info) \<in> set local_files. path info = f"
proof -
  obtain old r where item: "item = (old, r)" by (cases item)
  from assms obtain info where "map_of local_files old = Some info" "path info = f"
    by (cases "map_of local_files old") (auto simp: rename_events_def item split: if_splits)
  then show ?thesis by (auto dest!: map_of_SomeD)
qed

lemma deletions_of_orphaned_local_files:
  assumes "f \<in> fst ` set (orphaned_local_files env local_files s3_files old_paths s3_prefix
                             local_base_path file_sync scope)"
  shows "\<exists>(rel, info) \<in> set local_files. path info = f \<and> rel \<notin> fst ` set s3_files"
  using assms unfolding orphaned_local_files_def by force

lemma local_deletions_of_sync_from_s3:
  assumes "Call (DeleteLocalFile f)
             \<in> set (transfer_events env local_files s3_objects s3_prefix local_base_path force
                       dry_run scope
                     @ deletion_events env dry_run
                         (orphans_from_s3 env local_files s3_objects s3_prefix local_base_path
                            scope))"
  shows "\<exists>(rel, info) \<in> set local_files. path info = f"
proof -
  from assms consider
      (download) item where "Call (DeleteLocalFile f)
          \<in> set (download_events env local_files
                    ((\<lambda>(old, info). new_s3_rel_path info)
                       ` set (renames_from_s3 local_files s3_objects s3_prefix))
                    (is_file_sync env local_base_path scope) local_base_path force dry_run item)"
    | (rename) item where "Call (DeleteLocalFile f)
          \<in> set (rename_events env local_files (is_file_sync env local_base_path scope)
                    local_base_path dry_run item)"
    | (orphan) "f \<in> fst ` set (orphans_from_s3 env local_files s3_objects s3_prefix
                                 local_base_path scope)"
    unfolding transfer_events_def deletion_events_def
    by (auto split: if_splits)
  then show ?thesis
  proof cases
    case download
    then show ?thesis
      by (cases item) (auto simp: download_events_def split: if_splits option.splits)
  next
    case rename
    then show ?thesis by (rule deletions_of_rename_events)
  next
    case orphan
    from deletions_of_orphaned_local_files[OF this[unfolded orphans_from_s3_def]]
    show ?thesis by blast
  qed
qed

lemma orphaned_files_preview_from_s3:
  assumes "p \<in> set (orphaned_files (preview_from_s3 local_files s3_objects s3_prefix sc is_file
                                       project_path))"
  shows "p \<in> fst ` set local_files \<and> p \<notin> fst ` set (scoped_s3_files s3_objects s3_prefix sc)"
  using assms by (auto simp: preview_from_s3_def Let_def)


section \<open>Files that are the same on both sides\<close>

text \<open>A file that is the same on both sides is in \<open>already_matched_files\<close>.\<close>

lemma already_matched_iff:
  "p \<in> already_matched local_files s3_files \<longleftrightarrow>
     (\<exists>info s. (p, info) \<in> set local_files \<and> map_of s3_files p = Some s
               \<and> hash info = s3_file_hash s)"
  by (auto simp: already_matched_def split: option.splits) force

text \<open>The target of a rename is never a file that is already in sync.\<close>

lemma rename_targets_unmatched:
  assumes "(old, r) \<in> set (renames_from_s3 local_files s3_objects s3_prefix)"
  shows "new_s3_rel_path r \<notin> already_matched local_files (build_s3_files s3_objects s3_prefix)
         \<and> new_s3_rel_path r = relative_key s3_prefix (new_s3_key r)"
proof -
  from detect_renames_origin[OF assms[unfolded renames_from_s3_def]] obtain c where
    c: "c \<in> set (potential_renames local_files s3_objects s3_prefix (7 / 10)
                   (already_matched local_files (build_s3_files s3_objects s3_prefix)))"
    and r: "r = info_of c" by blast
  from potential_renames_char[OF c] r show ?thesis by (auto simp: info_of_def)
qed

lemma upload_key: "(if s3_prefix \<noteq> [] then s3_prefix @ rel_path else rel_path) = s3_prefix @ rel_path"
  by simp

lemma uploads_of_sync_to_s3:
  "Call (UploadFile f k) \<in> set (snd (sync_to_s3 env local_files s3_objects s3_prefix force
                                        dry_run scope)) \<longleftrightarrow>
   (\<exists>item \<in> set local_files.
      Call (UploadFile f k)
        \<in> set (upload_events s3_prefix (build_s3_files s3_objects s3_prefix)
                  (already_matched local_files (build_s3_files s3_objects s3_prefix))
                  force dry_run item))"
  by (auto simp: snd_sync_to_s3 snd_uploads_to_s3)

lemma forced_upload:
  assumes "(p, info) \<in> set local_files"
    and "map_of (build_s3_files s3_objects s3_prefix) p = Some s"
  shows "Call (UploadFile (path info) (s3_prefix @ p))
           \<in> set (snd (sync_to_s3 env local_files s3_objects s3_prefix True False scope))"
  unfolding uploads_of_sync_to_s3
  by (rule bexI[OF _ assms(1)]) (simp add: upload_events_def assms(2))

lemma unforced_upload:
  assumes "distinct (map fst local_files)"
    and "map_of local_files p = Some info"
    and "map_of (build_s3_files s3_objects s3_prefix) p = Some s"
    and "hash info = s3_file_hash s"
  shows "Call (UploadFile f (s3_prefix @ p))
           \<notin> set (snd (sync_to_s3 env local_files s3_objects s3_prefix False False scope))"
proof
  assume "Call (UploadFile f (s3_prefix @ p))
           \<in> set (snd (sync_to_s3 env local_files s3_objects s3_prefix False False scope))"
  then obtain p' info' where item: "(p', info') \<in> set local_files"
    and ev: "Call (UploadFile f (s3_prefix @ p))
        \<in> set (upload_events s3_prefix (build_s3_files s3_objects s3_prefix)
                  (already_matched local_files (build_s3_files s3_objects s3_prefix))
                  False False (p', info'))"
    unfolding uploads_of_sync_to_s3 by auto
  from ev have "p' = p"
    by (auto simp: upload_events_def split: if_splits option.splits)
  with item assms(1,2) have "info' = info" by simp
  have "p \<in> already_matched local_files (build_s3_files s3_objects s3_prefix)"
    unfolding already_matched_iff using map_of_SomeD[OF assms(2)] assms(3,4) by blast
  with ev \<open>p' = p\<close> show False by (simp add: upload_events_def)
qed


lemma matched_not_renamed:
  assumes "map_of (build_s3_files s3_objects s3_prefix) p = Some s"
    and "map_of local_files p = Some info"
    and "hash info = s3_file_hash s"
    and "(old, r) \<in> set (renames_from_s3 local_files s3_objects s3_prefix)"
  shows "new_s3_rel_path r \<noteq> p \<and> new_s3_key r \<noteq> s3_file_key s"
proof -
  have m: "p \<in> already_matched local_files (build_s3_files s3_objects s3_prefix)"
    unfolding already_matched_iff using map_of_SomeD[OF assms(2)] assms(1,3) by blast
  have p: "p = relative_key s3_prefix (s3_file_key s)"
    using build_s3_files_key[OF map_of_SomeD[OF assms(1)]] .
  from rename_targets_unmatched[OF assms(4)] m p show ?thesis by auto
qed

lemma forced_download:
  assumes "map_of (build_s3_files s3_objects s3_prefix) p = Some s"
    and "map_of local_files p = Some info"
    and "hash info = s3_file_hash s"
  shows "Call (DownloadFile (s3_file_key s)
                 (if is_file_sync env local_base_path scope then local_base_path
                  else normpath env (join_path local_base_path p)))
           \<in> set (transfer_events env local_files s3_objects s3_prefix local_base_path True False
                     scope)"
proof -
  have "p \<notin> (\<lambda>(old, info). new_s3_rel_path info)
               ` set (renames_from_s3 local_files s3_objects s3_prefix)"
    using matched_not_renamed[OF assms] by auto
  then have "download_events env local_files
               ((\<lambda>(old, info). new_s3_rel_path info)
                  ` set (renames_from_s3 local_files s3_objects s3_prefix))
               (is_file_sync env local_base_path scope) local_base_path True False (p, s)
             = [Call (DownloadFile (s3_file_key s)
                 (if is_file_sync env local_base_path scope then local_base_path
                  else normpath env (join_path local_base_path p)))]"
    by (simp add: download_events_def assms(2))
  with map_of_SomeD[OF assms(1)] show ?thesis
    unfolding transfer_events_def set_append set_concat set_map by (intro UnI1) force
qed

lemma unforced_download:
  assumes "map_of (build_s3_files s3_objects s3_prefix) p = Some s"
    and "map_of local_files p = Some info"
    and "hash info = s3_file_hash s"
  shows "Call (DownloadFile (s3_file_key s) t)
           \<notin> set (transfer_events env local_files s3_objects s3_prefix local_base_path False False
                     scope
                   @ deletion_events env False
                       (orphans_from_s3 env local_files s3_objects s3_prefix local_base_path
                          scope))"
proof
  assume "Call (DownloadFile (s3_file_key s) t)
           \<in> set (transfer_events env local_files s3_objects s3_prefix local_base_path False False
                     scope
                   @ deletion_events env False
                       (orphans_from_s3 env local_files s3_objects s3_prefix local_base_path
                          scope))"
  then consider
      (download) p' s' where "(p', s') \<in> set (build_s3_files s3_objects s3_prefix)"
        "Call (DownloadFile (s3_file_key s) t)
          \<in> set (download_events env local_files
                    ((\<lambda>(old, info). new_s3_rel_path info)
                       ` set (renames_from_s3 local_files s3_objects s3_prefix))
                    (is_file_sync env local_base_path scope) local_base_path False False (p', s'))"
    | (rename) old r where "(old, r) \<in> set (renames_from_s3 local_files s3_objects s3_prefix)"
        "Call (DownloadFile (s3_file_key s) t)
          \<in> set (rename_events env local_files (is_file_sync env local_base_path scope)
                    local_base_path False (old, r))"
    unfolding transfer_events_def deletion_events_def
    by (auto split: if_splits)
  then show False
  proof cases
    case download
    from download(2) have k: "s3_file_key s' = s3_file_key s"
      by (auto simp: download_events_def split: if_splits option.splits)
    with build_s3_files_key[OF download(1)] build_s3_files_key[OF map_of_SomeD[OF assms(1)]]
    have "p' = p" by simp
    with map_of_is_SomeI[OF distinct_build_s3_files download(1)] assms(1) have "s' = s" by simp
    with download(2) \<open>p' = p\<close> assms(2,3) show False
      by (simp add: download_events_def split: if_splits)
  next
    case rename
    from rename(2) have "new_s3_key r = s3_file_key s"
      by (auto simp: rename_events_def split: if_splits option.splits)
    with matched_not_renamed[OF assms rename(1)] show False by simp
  qed
qed

text \<open>The plan of a file that is the same on both sides.\<close>

lemma changed_files_entry:
  assumes "distinct (map fst local_files)" and "map_of local_files p = Some info"
  shows "p \<in> set (map fst (filter (\<lambda>(rel_path, info). P rel_path info) local_files)) \<longleftrightarrow> P p info"
proof
  assume "p \<in> set (map fst (filter (\<lambda>(rel_path, info). P rel_path info) local_files))"
  then obtain info' where "(p, info') \<in> set local_files" "P p info'" by auto
  with assms show "P p info" by simp
next
  assume "P p info"
  with map_of_SomeD[OF assms(2)] show
    "p \<in> set (map fst (filter (\<lambda>(rel_path, info). P rel_path info) local_files))"
    by force
qed

lemma identical_file_preview_to_s3:
  assumes "distinct (map fst local_files)"
    and "map_of local_files p = Some info"
    and "map_of (scoped_s3_files s3_objects s3_prefix sc) p = Some s"
    and "hash info = s3_file_hash s"
  shows "p \<notin> set (new_files (preview_to_s3 local_files s3_objects s3_prefix sc is_file
                                project_path force))"
    and "p \<in> set (changed_files (preview_to_s3 local_files s3_objects s3_prefix sc is_file
                                    project_path force)) \<longleftrightarrow> force"
    and "p \<notin> set (orphaned_files (preview_to_s3 local_files s3_objects s3_prefix sc is_file
                                     project_path force))"
    and "renames (preview_to_s3 local_files s3_objects s3_prefix sc is_file project_path force)
           = []"
proof -
  have s: "p \<in> fst ` set (scoped_s3_files s3_objects s3_prefix sc)"
    using map_of_SomeD[OF assms(3)] by force
  have l: "p \<in> fst ` set local_files" using map_of_SomeD[OF assms(2)] by force
  show "p \<notin> set (new_files (preview_to_s3 local_files s3_objects s3_prefix sc is_file
                                project_path force))"
    using s by (simp add: preview_to_s3_def Let_def)
  show "p \<notin> set (orphaned_files (preview_to_s3 local_files s3_objects s3_prefix sc is_file
                                     project_path force))"
    using l by (simp add: preview_to_s3_def Let_def)
  show "renames (preview_to_s3 local_files s3_objects s3_prefix sc is_file project_path force)
           = []"
    by (simp add: preview_to_s3_def Let_def)
  have "changed_files (preview_to_s3 local_files s3_objects s3_prefix sc is_file project_path force)
         = map fst (filter (\<lambda>(rel_path, info).
                       case map_of (scoped_s3_files s3_objects s3_prefix sc) rel_path of
                         None \<Rightarrow> False
                       | Some s3_info \<Rightarrow> force \<or> hash info \<noteq> s3_file_hash s3_info) local_files)"
    by (simp add: preview_to_s3_def Let_def)
  then show "p \<in> set (changed_files (preview_to_s3 local_files s3_objects s3_prefix sc is_file
                                    project_path force)) \<longleftrightarrow> force"
    by (simp only: changed_files_entry[OF assms(1,2)] assms(3,4) option.case) simp
qed

lemma identical_file_preview_from_s3:
  assumes "distinct (map fst local_files)"
    and "map_of local_files p = Some info"
    and "map_of (scoped_s3_files s3_objects s3_prefix sc) p = Some s"
    and "hash info = s3_file_hash s"
  shows "p \<notin> set (new_files (preview_from_s3 local_files s3_objects s3_prefix sc is_file
                                project_path))"
    and "p \<notin> set (changed_files (preview_from_s3 local_files s3_objects s3_prefix sc is_file
                                    project_path))"
    and "p \<notin> set (orphaned_files (preview_from_s3 local_files s3_objects s3_prefix sc is_file
                                     project_path))"
    and "(old, r) \<in> set (renames (preview_from_s3 local_files s3_objects s3_prefix sc is_file
                                    project_path)) \<Longrightarrow> old \<noteq> p \<and> new_s3_rel_path r \<noteq> p"
proof -
  have s: "p \<in> fst ` set (scoped_s3_files s3_objects s3_prefix sc)"
    using map_of_SomeD[OF assms(3)] by force
  have l: "p \<in> fst ` set local_files" using map_of_SomeD[OF assms(2)] by force
  show "p \<notin> set (new_files (preview_from_s3 local_files s3_objects s3_prefix sc is_file
                                project_path))"
    using l by (simp add: preview_from_s3_def Let_def)
  show "p \<notin> set (orphaned_files (preview_from_s3 local_files s3_objects s3_prefix sc is_file
                                     project_path))"
    using s by (simp add: preview_from_s3_def Let_def)
  have "changed_files (preview_from_s3 local_files s3_objects s3_prefix sc is_file project_path)
         = map fst (filter (\<lambda>(rel_path, info).
                       case map_of (scoped_s3_files s3_objects s3_prefix sc) rel_path of
                         None \<Rightarrow> False
                       | Some s3_info \<Rightarrow> hash info \<noteq> s3_file_hash s3_info) local_files)"
    by (simp add: preview_from_s3_def Let_def)
  then show "p \<notin> set (changed_files (preview_from_s3 local_files s3_objects s3_prefix sc is_file
                                    project_path))"
    by (simp only: changed_files_entry[OF assms(1,2)] assms(3,4) option.case)
  assume "(old, r) \<in> set (renames (preview_from_s3 local_files s3_objects s3_prefix sc is_file
                                    project_path))"
  then have "(old, r) \<in> set (detect_renames local_files s3_objects s3_prefix (7 / 10)
                 (already_matched local_files (scoped_s3_files s3_objects s3_prefix sc)))"
    by (simp add: preview_from_s3_def Let_def)
  from detect_renames_origin[OF this] obtain c where
    c: "c \<in> set (potential_renames local_files s3_objects s3_prefix (7 / 10)
                   (already_matched local_files (scoped_s3_files s3_objects s3_prefix sc)))"
    and r: "old = local_path c" "r = info_of c" by blast
  have "p \<in> already_matched local_files (scoped_s3_files s3_objects s3_prefix sc)"
    unfolding already_matched_iff using map_of_SomeD[OF assms(2)] assms(3,4) by blast
  with potential_renames_char[OF c] r show "old \<noteq> p \<and> new_s3_rel_path r \<noteq> p"
    by (auto simp: info_of_def)
qed


section \<open>Ignored extensions\<close>

text \<open>
  The name of a directory entry contains no separator. This holds in every file system; the
  model of the file system allows any string as a name, so it is stated here.
\<close>

fun names_ok :: "fs_node \<Rightarrow> bool" where
  "names_ok (File etag sz) = True"
| "names_ok (Dir entries) = (\<forall>entry \<in> set entries. slash \<notin> set (fst entry) \<and> names_ok (snd entry))"

text \<open>Base names and extensions of joined paths.\<close>

lemma basename_no_slash:
  assumes "slash \<notin> set name"
  shows "basename name = name"
proof -
  have "takeWhile (\<lambda>c. c \<noteq> slash) (rev name) = rev name"
    using assms by (auto simp: takeWhile_eq_all_conv)
  then show ?thesis unfolding basename_def by (simp only: rev_rev_ident)
qed

lemma takeWhile_before_stop:
  assumes "\<not> P y"
  shows "takeWhile P (xs @ y # ys) = takeWhile P xs"
proof (cases "\<forall>x \<in> set xs. P x")
  case True
  then have 1: "takeWhile P xs = xs" by (simp add: takeWhile_eq_all_conv)
  from True assms have 2: "takeWhile P (xs @ y # ys) = xs"
    by (simp add: takeWhile_append2)
  show ?thesis unfolding 1 2 ..
next
  case False
  then obtain x where "x \<in> set xs" "\<not> P x" by blast
  then show ?thesis by (rule takeWhile_append1)
qed

lemma basename_after_slash:
  assumes "suffix ''/'' pfx"
  shows "basename (pfx @ p) = basename p"
proof -
  from assms obtain q where "pfx = q @ ''/''" by (auto simp: suffix_def)
  then have "rev (pfx @ p) = rev p @ slash # rev q" by simp
  then show ?thesis unfolding basename_def by (simp only: takeWhile_before_stop simp_thms)
qed

lemma basename_join_path:
  assumes n: "slash \<notin> set name"
  shows "basename (join_path root_dir name) = name"
proof -
  from n have 1: "\<not> prefix ''/'' name" by (auto simp: prefix_def)
  have 2: "basename (root_dir @ ''/'' @ name) = name"
    using basename_after_slash[of "root_dir @ ''/''" name] basename_no_slash[OF n]
    by (simp add: suffix_def)
  have 3: "basename (root_dir @ name) = name" if "root_dir = [] \<or> suffix ''/'' root_dir"
    using that basename_after_slash[of root_dir name] basename_no_slash[OF n] by auto
  show ?thesis
  proof (cases "root_dir = [] \<or> suffix ''/'' root_dir")
    case True
    with 1 3 show ?thesis unfolding join_path_def by (simp only: if_False if_True)
  next
    case False
    with 1 2 show ?thesis unfolding join_path_def by (simp only: if_False if_True)
  qed
qed

lemma splitext_ext_basename: "splitext_ext (basename p) = splitext_ext p"
proof -
  have "basename (basename p) = basename p"
    by (rule basename_no_slash) (auto simp: basename_def dest: set_takeWhileD)
  then show ?thesis by (simp add: splitext_ext_def)
qed

lemma splitext_ext_after_slash: "suffix ''/'' pfx \<Longrightarrow> splitext_ext (pfx @ p) = splitext_ext p"
  by (simp add: splitext_ext_def basename_after_slash)

lemma splitext_ext_folder: "suffix ''/'' k \<Longrightarrow> splitext_ext k = []"
  by (auto simp: splitext_ext_def basename_def suffix_def)

lemma no_extension_not_skipped: "lower [] \<notin> SKIP_EXTENSIONS"
  by (simp add: lower_def SKIP_EXTENSIONS_def)

text \<open>The files of a walk have the names of directory entries.\<close>

lemma files_of_names:
  assumes "(r, ds, name, etag, sz) \<in> set (files_of root_dir rel_dirs entries)"
  shows "name \<in> fst ` set entries \<and> r = root_dir"
  using assms by (induction root_dir rel_dirs entries rule: files_of.induct) auto

lemma walk_names:
  "(r, ds, name, etag, sz) \<in> set (walk keep_dir root_dir rel_dirs entries) \<Longrightarrow>
     names_ok (Dir entries) \<Longrightarrow> slash \<notin> set name"
  "(r, ds, name, etag, sz) \<in> set (walk_dirs keep_dir root_dir rel_dirs entries) \<Longrightarrow>
     names_ok (Dir entries) \<Longrightarrow> slash \<notin> set name"
proof (induction keep_dir root_dir rel_dirs entries and keep_dir root_dir rel_dirs entries
       rule: walk_walk_dirs.induct)
  case (1 keep_dir root_dir rel_dirs entries)
  from "1.prems"(1) consider "(r, ds, name, etag, sz) \<in> set (files_of root_dir rel_dirs entries)"
    | "(r, ds, name, etag, sz) \<in> set (walk_dirs keep_dir root_dir rel_dirs entries)" by auto
  then show ?case
  proof cases
    case 1
    from files_of_names[OF this] "1.prems"(2) show ?thesis by auto
  next
    case 2
    then show ?thesis using "1.IH" "1.prems"(2) by blast
  qed
next
  case (2 keep_dir root_dir rel_dirs)
  then show ?case by simp
next
  case (3 keep_dir root_dir rel_dirs name' etag' sz' entries)
  then show ?case by simp
next
  case (4 keep_dir root_dir rel_dirs name' children entries)
  from "4.prems"(1) consider
      "keep_dir name'" "(r, ds, name, etag, sz)
          \<in> set (walk keep_dir (join_path root_dir name') (rel_dirs @ [name']) children)"
    | "(r, ds, name, etag, sz) \<in> set (walk_dirs keep_dir root_dir rel_dirs entries)"
    by (auto split: if_splits)
  then show ?case
  proof cases
    case 1
    moreover from "4.prems"(2) have "names_ok (Dir children)" by simp
    ultimately show ?thesis using "4.IH"(1) by blast
  next
    case 2
    moreover from "4.prems"(2) have "names_ok (Dir entries)" by simp
    ultimately show ?thesis using "4.IH"(2) by blast
  qed
qed


text \<open>What the scan of the local side leaves out.\<close>

lemma scan_step_cases:
  "scan_step skip_ext (root_dir, rel_dirs, name, etag, sz) m = m
   \<or> (lower (splitext_ext name) \<notin> skip_ext
       \<and> (\<exists>h. scan_step skip_ext (root_dir, rel_dirs, name, etag, sz) m
                = AList.update (replace_backslash (join_slash (rel_dirs @ [name])))
                    \<lparr>hash = h, fsize = sz, path = join_path root_dir name\<rparr> m))"
proof (cases etag)
  case None
  then show ?thesis unfolding scan_step_def Let_def by simp
next
  case (Some h)
  then show ?thesis unfolding scan_step_def Let_def by (cases "h = []") auto
qed

lemma fold_scan_step:
  assumes "\<forall>w \<in> set ws. slash \<notin> set (fst (snd (snd w)))"
    and "\<forall>entry \<in> set m. lower (splitext_ext (path (snd entry))) \<notin> skip_ext"
  shows "\<forall>entry \<in> set (fold (scan_step skip_ext) ws m).
           lower (splitext_ext (path (snd entry))) \<notin> skip_ext"
  using assms
proof (induction ws arbitrary: m)
  case Nil
  then show ?case by simp
next
  case (Cons w ws)
  obtain root_dir rel_dirs name etag sz where w: "w = (root_dir, rel_dirs, name, etag, sz)"
    by (cases w)
  from Cons.prems(1) have n: "slash \<notin> set name" by (simp add: w)
  have "\<forall>entry \<in> set (scan_step skip_ext w m).
          lower (splitext_ext (path (snd entry))) \<notin> skip_ext"
  proof
    fix entry assume e: "entry \<in> set (scan_step skip_ext w m)"
    from scan_step_cases[of skip_ext root_dir rel_dirs name etag sz m]
    show "lower (splitext_ext (path (snd entry))) \<notin> skip_ext"
    proof
      assume "scan_step skip_ext (root_dir, rel_dirs, name, etag, sz) m = m"
      with e Cons.prems(2) show ?thesis by (simp add: w)
    next
      assume "lower (splitext_ext name) \<notin> skip_ext
       \<and> (\<exists>h. scan_step skip_ext (root_dir, rel_dirs, name, etag, sz) m
                = AList.update (replace_backslash (join_slash (rel_dirs @ [name])))
                    \<lparr>hash = h, fsize = sz, path = join_path root_dir name\<rparr> m)"
      then obtain h where x: "lower (splitext_ext name) \<notin> skip_ext"
        and u: "scan_step skip_ext w m
                = AList.update (replace_backslash (join_slash (rel_dirs @ [name])))
                    \<lparr>hash = h, fsize = sz, path = join_path root_dir name\<rparr> m"
        unfolding w by blast
      obtain rel info where entry: "entry = (rel, info)" by (cases entry)
      from in_set_update[OF e[unfolded u entry]]
      show ?thesis
      proof
        assume "(rel, info) \<in> set m"
        with Cons.prems(2) show ?thesis by (auto simp: entry)
      next
        assume "rel = replace_backslash (join_slash (rel_dirs @ [name]))
                \<and> info = \<lparr>hash = h, fsize = sz, path = join_path root_dir name\<rparr>"
        then have "path (snd entry) = join_path root_dir name" by (simp add: entry)
        moreover have "splitext_ext (join_path root_dir name) = splitext_ext name"
          using splitext_ext_basename[of "join_path root_dir name"] basename_join_path[OF n]
          by simp
        ultimately show ?thesis using x by simp
      qed
    qed
  qed
  moreover from Cons.prems(1) have "\<forall>w \<in> set ws. slash \<notin> set (fst (snd (snd w)))" by simp
  ultimately show ?case using Cons.IH by simp
qed

lemma scanned_not_skipped:
  assumes names: "\<forall>p node. file_system env p = Some node \<longrightarrow> names_ok node"
    and mem: "(rel, info) \<in> set (scan_local env skip_ext keep lp)"
  shows "lower (splitext_ext (path info)) \<notin> skip_ext"
proof (cases "file_system env (normpath env lp)")
  case None
  with mem show ?thesis unfolding scan_local_def Let_def by simp
next
  case (Some node)
  show ?thesis
  proof (cases node)
    case (File etag sz)
    have eq: "scan_local env skip_ext keep lp =
          (if basename (normpath env lp) \<notin> skip_files
              \<and> lower (splitext_ext (basename (normpath env lp))) \<notin> skip_ext
           then (case etag of
                   None \<Rightarrow> []
                 | Some file_hash \<Rightarrow>
                     if file_hash = [] then []
                     else [(basename (normpath env lp),
                            \<lparr>hash = file_hash, fsize = sz, path = normpath env lp\<rparr>)])
           else [])"
      unfolding scan_local_def by (simp only: Some File Let_def option.case fs_node.case)
    show ?thesis
    proof (cases "basename (normpath env lp) \<notin> skip_files
              \<and> lower (splitext_ext (basename (normpath env lp))) \<notin> skip_ext")
      case False
      then show ?thesis using mem by (simp only: eq if_False list.set empty_iff)
    next
      case c: True
      then have x: "lower (splitext_ext (normpath env lp)) \<notin> skip_ext"
        by (simp add: splitext_ext_basename)
      show ?thesis
      proof (cases etag)
        case None
        then show ?thesis using mem c by (simp add: eq)
      next
        case (Some file_hash)
        then show ?thesis using mem c x by (cases "file_hash = []") (simp_all add: eq)
      qed
    qed
  next
    case (Dir entries)
    have eq: "scan_local env skip_ext keep lp
                = fold (scan_step skip_ext) (walk keep (normpath env lp) [] entries) []"
      unfolding scan_local_def by (simp only: Some Dir Let_def option.case fs_node.case)
    from names Some Dir have ok: "names_ok (Dir entries)" by blast
    have "\<forall>w \<in> set (walk keep (normpath env lp) [] entries). slash \<notin> set (fst (snd (snd w)))"
    proof
      fix w assume w: "w \<in> set (walk keep (normpath env lp) [] entries)"
      obtain r ds name etag sz where "w = (r, ds, name, etag, sz)" by (cases w)
      with walk_names(1)[OF w[unfolded this] ok] show "slash \<notin> set (fst (snd (snd w)))"
        by simp
    qed
    from fold_scan_step[OF this, of "[]" skip_ext] mem show ?thesis
      unfolding eq by force
  qed
qed


text \<open>The S3 prefix of a run ends with a slash.\<close>

lemma parse_project_path_prefix:
  assumes "parse_project_path env project_root project_path bucket_override prefix_override
             = (bucket_name, s3_prefix, lpath)"
  shows "suffix ''/'' s3_prefix"
proof -
  have 1: "suffix ''/'' (if \<not> suffix ''/'' p then p @ ''/'' else p)" for p :: string
    by (simp add: suffix_def)
  have 2: "suffix ''/'' S3_PREFIX" by (simp add: S3_PREFIX_def suffix_def)
  have 3: "suffix ''/'' (if c then a else b)" if "suffix ''/'' a" "suffix ''/'' b"
    for c and a b :: string using that by simp
  have "suffix ''/'' (fst (snd (parse_project_path env project_root project_path
                                  bucket_override prefix_override)))"
  proof (cases prefix_override)
    case None
    show ?thesis
      unfolding parse_project_path_def Let_def snd_conv fst_conv None option.case
      by (intro 3 1 2)
  next
    case (Some p)
    show ?thesis
      unfolding parse_project_path_def Let_def snd_conv fst_conv Some option.case
      by (intro 3 1 2)
  qed
  with assms show ?thesis by simp
qed

lemma splitext_ext_relative_key:
  assumes "suffix ''/'' s3_prefix"
  shows "splitext_ext (relative_key s3_prefix k) = splitext_ext k"
proof (cases "s3_prefix \<noteq> [] \<and> prefix s3_prefix k")
  case True
  then obtain rest where k: "k = s3_prefix @ rest" by (auto simp: prefix_def)
  with True have "relative_key s3_prefix k = rest" by (simp add: relative_key_def)
  with splitext_ext_after_slash[OF assms, of rest] k show ?thesis by simp
next
  case False
  then show ?thesis by (auto simp: relative_key_def)
qed

lemma deleted_not_skipped:
  assumes slash: "suffix ''/'' s3_prefix"
    and del: "Call (DeleteObject k)
                \<in> set (snd (sync_to_s3 env local_files s3_objects s3_prefix force dry_run scope))"
  shows "lower (splitext_ext k) \<notin> SKIP_EXTENSIONS"
proof -
  from del consider
      (orphan) rel s where "(rel, s) \<in> set (build_s3_files s3_objects s3_prefix)"
        "lower (splitext_ext rel) \<notin> SKIP_EXTENSIONS" "k = s3_file_key s"
    | (marker) obj where "is_folder_marker obj" "k = Key obj"
    by (auto simp: snd_sync_to_s3 snd_uploads_to_s3 upload_events_def orphans_to_s3_def
          orphaned_keys_def s3_folder_markers_def split: if_splits option.splits)
  then show ?thesis
  proof cases
    case orphan
    from build_s3_files_key[OF orphan(1)] orphan(3)
    have "rel = relative_key s3_prefix k" by simp
    with splitext_ext_relative_key[OF slash, of k] orphan(2) show ?thesis by simp
  next
    case marker
    then have "suffix ''/'' k" by (simp add: is_folder_marker_def)
    from splitext_ext_folder[OF this] show ?thesis by (simp add: no_extension_not_skipped)
  qed
qed

lemma uploaded_is_scanned:
  assumes "Call (UploadFile f k)
             \<in> set (snd (sync_to_s3 env local_files s3_objects s3_prefix force dry_run scope))"
  shows "\<exists>entry \<in> set local_files. f = path (snd entry)"
proof -
  from assms obtain item where item: "item \<in> set local_files"
    and ev: "Call (UploadFile f k)
        \<in> set (upload_events s3_prefix (build_s3_files s3_objects s3_prefix)
                  (already_matched local_files (build_s3_files s3_objects s3_prefix))
                  force dry_run item)"
    unfolding uploads_of_sync_to_s3 by blast
  obtain rel info where i: "item = (rel, info)" by (cases item)
  from ev have "f = path info"
    by (auto simp: i upload_events_def split: if_splits option.splits)
  with item i show ?thesis by force
qed

lemma trace_of_sync_single_path_to_s3:
  assumes parse: "parse_project_path env project_root project_path bucket_override
                    prefix_override = (bucket_name, s3_prefix, lpath)"
    and ev: "Call c \<in> set (trace (sync_single_path_to_s3 env project_root project_path
                                    bucket_override prefix_override force dry_run yes))"
  shows "\<exists>s3_objects dry.
           Call c \<in> set (snd (sync_to_s3 env
                                 (if path_exists env lpath then scan_local_files_to_s3 env lpath
                                  else [])
                                 s3_objects s3_prefix force dry
                                 (Some (sync_scope env lpath project_path s3_prefix))))"
proof -
  define up where "up = (if path_exists env lpath then scan_local_files_to_s3 env lpath else [])"
  define sc where "sc = sync_scope env lpath project_path s3_prefix"
  from ev have "\<exists>s3_objects dry.
      Call c \<in> set (snd (sync_to_s3 env up s3_objects s3_prefix force dry (Some sc)))"
    by (auto simp: sync_single_path_to_s3_def parse Let_def up_def[symmetric]
          sc_def[symmetric] split: option.splits if_splits)
  then show ?thesis unfolding up_def sc_def .
qed

section \<open>Example sites\<close>

text \<open>
  Concrete environments for the scenarios below. The project root is \<open>/site\<close>; every call
  succeeds, the terminal input is closed, and the paths need no normalisation.
\<close>

text \<open>Nothing exists locally; S3 has a file at the top of the prefix and one below \<open>img/\<close>.\<close>

definition site_without_nested_file :: environment where
  "site_without_nested_file =
     \<lparr>file_system = (\<lambda>p. None),
      bucket = [\<lparr>Key = ''games/pull-tabs/index.html'', ETag = ''e1'', Size = 10\<rparr>,
                \<lparr>Key = ''games/pull-tabs/img/logo.png'', ETag = ''e2'', Size = 20\<rparr>],
      s3_unavailable = False, client = (\<lambda>c. True), user = (\<lambda>p. None),
      normpath = (\<lambda>p. p), relpath = (\<lambda>p q. None)\<rparr>"

text \<open>Local \<open>img/logo.png\<close>, remote \<open>img/logo-old.png\<close>, same content.\<close>

definition site_new_name_local :: environment where
  "site_new_name_local =
     \<lparr>file_system = (\<lambda>p. if p = ''/site/img''
                           then Some (Dir [(''logo.png'', File (Some ''h1'') 20)]) else None),
      bucket = [\<lparr>Key = ''games/pull-tabs/img/logo-old.png'', ETag = ''h1'', Size = 20\<rparr>],
      s3_unavailable = False, client = (\<lambda>c. True), user = (\<lambda>p. None),
      normpath = (\<lambda>p. p), relpath = (\<lambda>p q. None)\<rparr>"

text \<open>Local \<open>img/logo-old.png\<close>, remote \<open>img/logo.png\<close>, same content.\<close>

definition site_old_name_local :: environment where
  "site_old_name_local =
     \<lparr>file_system = (\<lambda>p. if p = ''/site/img''
                           then Some (Dir [(''logo-old.png'', File (Some ''h1'') 20)]) else None),
      bucket = [\<lparr>Key = ''games/pull-tabs/img/logo.png'', ETag = ''h1'', Size = 20\<rparr>],
      s3_unavailable = False, client = (\<lambda>c. True), user = (\<lambda>p. None),
      normpath = (\<lambda>p. p), relpath = (\<lambda>p q. None)\<rparr>"

text \<open>The local directory \<open>img\<close> is gone; S3 still has two files under it.\<close>

definition site_without_img :: environment where
  "site_without_img =
     \<lparr>file_system = (\<lambda>p. None),
      bucket = [\<lparr>Key = ''games/pull-tabs/img/a.png'', ETag = ''e1'', Size = 10\<rparr>,
                \<lparr>Key = ''games/pull-tabs/img/b.png'', ETag = ''e2'', Size = 20\<rparr>,
                \<lparr>Key = ''games/pull-tabs/index.html'', ETag = ''e3'', Size = 30\<rparr>],
      s3_unavailable = False, client = (\<lambda>c. True), user = (\<lambda>p. None),
      normpath = (\<lambda>p. p), relpath = (\<lambda>p q. None)\<rparr>"

text \<open>A simple \<open>os.path.relpath\<close> for the examples: defined below the start directory only.\<close>

definition relpath_below :: "string \<Rightarrow> string \<Rightarrow> string option" where
  "relpath_below p start =
     (if prefix (start @ ''/'') p then Some (drop (length start + 1) p) else None)"

text \<open>
  Local \<open>img\<close> has \<open>keep.png\<close> and \<open>extra.txt\<close>; S3 has \<open>img/keep.png\<close> with the same content
  and \<open>img/new.css\<close>. The user's input is closed.
\<close>

definition site_with_extra_local_file :: environment where
  "site_with_extra_local_file =
     \<lparr>file_system = (\<lambda>p. if p = ''/site/img''
                           then Some (Dir [(''keep.png'', File (Some ''h1'') 20),
                                           (''extra.txt'', File (Some ''h2'') 5)]) else None),
      bucket = [\<lparr>Key = ''games/pull-tabs/img/keep.png'', ETag = ''h1'', Size = 20\<rparr>,
                \<lparr>Key = ''games/pull-tabs/img/new.css'', ETag = ''h3'', Size = 7\<rparr>],
      s3_unavailable = False, client = (\<lambda>c. True), user = (\<lambda>p. None),
      normpath = (\<lambda>p. p), relpath = relpath_below\<rparr>"

text \<open>
  Local \<open>img\<close> has \<open>keep.png\<close> and \<open>extra.txt\<close>; S3 has \<open>img/keep.png\<close> with the same content,
  \<open>img/new.css\<close>, and \<open>index.html\<close> outside \<open>img/\<close>. The user answers \<open>yes\<close>.
\<close>

definition site_with_orphans_on_both_sides :: environment where
  "site_with_orphans_on_both_sides =
     \<lparr>file_system = (\<lambda>p. if p = ''/site/img''
                           then Some (Dir [(''keep.png'', File (Some ''h1'') 20),
                                           (''extra.txt'', File (Some ''h2'') 5)]) else None),
      bucket = [\<lparr>Key = ''games/pull-tabs/img/keep.png'', ETag = ''h1'', Size = 20\<rparr>,
                \<lparr>Key = ''games/pull-tabs/img/new.css'', ETag = ''h3'', Size = 7\<rparr>,
                \<lparr>Key = ''games/pull-tabs/index.html'', ETag = ''h4'', Size = 9\<rparr>],
      s3_unavailable = False, client = (\<lambda>c. True), user = (\<lambda>p. Some ''yes''),
      normpath = (\<lambda>p. p), relpath = relpath_below\<rparr>"

text \<open>
  Local \<open>img\<close> has \<open>logo.png\<close>, \<open>logo.PSD\<close> and \<open>new.css\<close>; S3 has \<open>img/logo.png\<close> with the same
  content, \<open>img/old.psd\<close> and \<open>img/old.txt\<close>.
\<close>

definition site_with_photoshop_files :: environment where
  "site_with_photoshop_files =
     \<lparr>file_system = (\<lambda>p. if p = ''/site/img''
                           then Some (Dir [(''logo.png'', File (Some ''h1'') 20),
                                           (''logo.PSD'', File (Some ''h2'') 90),
                                           (''new.css'', File (Some ''h5'') 7)]) else None),
      bucket = [\<lparr>Key = ''games/pull-tabs/img/logo.png'', ETag = ''h1'', Size = 20\<rparr>,
                \<lparr>Key = ''games/pull-tabs/img/old.psd'', ETag = ''h3'', Size = 80\<rparr>,
                \<lparr>Key = ''games/pull-tabs/img/old.txt'', ETag = ''h4'', Size = 5\<rparr>],
      s3_unavailable = False, client = (\<lambda>c. True), user = (\<lambda>p. None),
      normpath = (\<lambda>p. p), relpath = relpath_below\<rparr>"

section \<open>Claims\<close>

text \<open>
  C3. Rename detection is meant to be 1:1: no source path and no target path in more than one
  rename pair. The detection of the download direction only records the local (source) paths
  it has claimed; the check of the second pass tests the local path twice and never the S3
  key. With two local files \<open>a1.png\<close> and \<open>a2.png\<close> of equal content and one object \<open>a3.png\<close>
  with the same content in S3, both local files are paired with the same S3 key.
\<close>

theorem detect_renames_target_claimed_twice:
  "map (\<lambda>(old_local_path, info). (old_local_path, new_s3_key info))
     (detect_renames
        [(''a1.png'', \<lparr>hash = ''h1'', fsize = 3, path = ''/site/img/a1.png''\<rparr>),
         (''a2.png'', \<lparr>hash = ''h1'', fsize = 3, path = ''/site/img/a2.png''\<rparr>)]
        [\<lparr>Key = ''games/pull-tabs/img/a3.png'', ETag = ''h1'', Size = 3\<rparr>]
        ''games/pull-tabs/img/'' (7 / 10) {})
   = [(''a1.png'', ''games/pull-tabs/img/a3.png''), (''a2.png'', ''games/pull-tabs/img/a3.png'')]"
  by code_simp

text \<open>
  C7. Rename detection never pairs two entries whose base file names are less similar than
  the threshold: the similarity recorded for a pair is the similarity of the base name of the
  old path and the base name of the new path (for an S3 key, of its path relative to the
  prefix), these are the two names recorded with the pair, and that similarity is at least the
  threshold. The candidates are assigned greedily, most similar first: when a pair is
  selected, every candidate of higher similarity that shares its source or its target has
  already been claimed by a pair that is at least as similar as that candidate. This holds
  for the detection of the download direction, which claims local paths, and for the one of
  the upload direction, which claims S3 keys and local paths.
\<close>

theorem renames_above_threshold_and_greedy:
  "(\<forall>(old_local_path, info) \<in> set (detect_renames local_files s3_objects s3_prefix th matched).
      th \<le> info_similarity info
    \<and> info_similarity info
         = calculate_filename_similarity (basename old_local_path)
             (basename (relative_key s3_prefix (new_s3_key info)))
    \<and> old_filename info = basename old_local_path
    \<and> new_filename info = basename (relative_key s3_prefix (new_s3_key info))
    \<and> new_s3_rel_path info = relative_key s3_prefix (new_s3_key info)
    \<and> (\<forall>c \<in> set (potential_renames local_files s3_objects s3_prefix th matched).
          info_similarity info < similarity c
          \<and> (local_path c = old_local_path \<or> s3_key c = new_s3_key info) \<longrightarrow>
          local_path c \<noteq> old_local_path
          \<and> (\<exists>info'. map_of (detect_renames local_files s3_objects s3_prefix th matched)
                          (local_path c) = Some info'
                     \<and> similarity c \<le> info_similarity info')))
 \<and> (\<forall>(old_s3_key, info) \<in> set (detect_renames_to_s3 local_files s3_objects s3_prefix th matched).
      th \<le> u_info_similarity info
    \<and> u_info_similarity info
         = calculate_filename_similarity (basename (relative_key s3_prefix old_s3_key))
             (basename (new_local_path info))
    \<and> u_old_filename info = basename (relative_key s3_prefix old_s3_key)
    \<and> u_new_filename info = basename (new_local_path info)
    \<and> (\<forall>c \<in> set (u_potential_renames local_files s3_objects s3_prefix th matched).
          u_info_similarity info < u_similarity c
          \<and> (u_s3_key c = old_s3_key \<or> u_local_path c = new_local_path info) \<longrightarrow>
          (\<exists>(k', info') \<in> set (detect_renames_to_s3 local_files s3_objects s3_prefix th matched).
              (k' = u_s3_key c \<or> new_local_path info' = u_local_path c)
              \<and> u_similarity c \<le> u_info_similarity info')))"
proof (intro conjI ballI)
  fix x assume x: "x \<in> set (detect_renames local_files s3_objects s3_prefix th matched)"
  obtain old info where xe: "x = (old, info)" by (cases x)
  from detect_renames_origin[OF x[unfolded xe]] obtain c0 where
    c0: "c0 \<in> set (potential_renames local_files s3_objects s3_prefix th matched)"
        "old = local_path c0" "info = info_of c0" by blast
  from potential_renames_char[OF c0(1)] have
    th: "th \<le> similarity c0"
      "similarity c0 = calculate_filename_similarity (local_filename c0) (s3_filename c0)"
      "local_filename c0 = basename (local_path c0)"
      "s3_filename c0 = basename (relative_key s3_prefix (s3_key c0))"
      "s3_rel_path c0 = relative_key s3_prefix (s3_key c0)"
    by auto
  have m: "map_of (detect_renames local_files s3_objects s3_prefix th matched) old = Some info"
    using map_of_is_SomeI[OF detect_renames_distinct x[unfolded xe]] .
  have g: "local_path c \<noteq> old
          \<and> (\<exists>info'. map_of (detect_renames local_files s3_objects s3_prefix th matched)
                          (local_path c) = Some info' \<and> similarity c \<le> info_similarity info')"
    if c: "c \<in> set (potential_renames local_files s3_objects s3_prefix th matched)"
      and hi: "info_similarity info < similarity c" for c
  proof -
    from detect_renames_greedy[OF c] obtain c' where
      c': "similarity c \<le> similarity c'"
          "map_of (detect_renames local_files s3_objects s3_prefix th matched) (local_path c)
             = Some (info_of c')" by blast
    have "local_path c \<noteq> old"
    proof
      assume "local_path c = old"
      with c'(2) m have "info = info_of c'" by simp
      with c'(1) hi show False by (simp add: info_of_def)
    qed
    moreover have "similarity c \<le> info_similarity (info_of c')"
      using c'(1) by (simp add: info_of_def)
    ultimately show ?thesis using c'(2) by blast
  qed
  show "case x of (old_local_path, info) \<Rightarrow>
      th \<le> info_similarity info
    \<and> info_similarity info
         = calculate_filename_similarity (basename old_local_path)
             (basename (relative_key s3_prefix (new_s3_key info)))
    \<and> old_filename info = basename old_local_path
    \<and> new_filename info = basename (relative_key s3_prefix (new_s3_key info))
    \<and> new_s3_rel_path info = relative_key s3_prefix (new_s3_key info)
    \<and> (\<forall>c \<in> set (potential_renames local_files s3_objects s3_prefix th matched).
          info_similarity info < similarity c
          \<and> (local_path c = old_local_path \<or> s3_key c = new_s3_key info) \<longrightarrow>
          local_path c \<noteq> old_local_path
          \<and> (\<exists>info'. map_of (detect_renames local_files s3_objects s3_prefix th matched)
                          (local_path c) = Some info'
                     \<and> similarity c \<le> info_similarity info'))"
    unfolding xe prod.case using th c0(2,3) g by (simp add: info_of_def)
next
  fix x assume x: "x \<in> set (detect_renames_to_s3 local_files s3_objects s3_prefix th matched)"
  obtain old info where xe: "x = (old, info)" by (cases x)
  from detect_renames_to_s3_origin[OF x[unfolded xe]] obtain c0 where
    c0: "c0 \<in> set (u_potential_renames local_files s3_objects s3_prefix th matched)"
        "old = u_s3_key c0" "info = u_info_of c0" by blast
  from u_potential_renames_threshold[OF c0(1)] u_potential_renames_names[OF c0(1)] have
    th: "th \<le> u_similarity c0"
      "u_similarity c0 = calculate_filename_similarity (u_s3_filename c0) (u_local_filename c0)"
      "u_s3_filename c0 = basename (relative_key s3_prefix (u_s3_key c0))"
      "u_local_filename c0 = basename (u_local_path c0)"
    by auto
  have g: "\<exists>(k', info') \<in> set (detect_renames_to_s3 local_files s3_objects s3_prefix th matched).
              (k' = u_s3_key c \<or> new_local_path info' = u_local_path c)
              \<and> u_similarity c \<le> u_info_similarity info'"
    if c: "c \<in> set (u_potential_renames local_files s3_objects s3_prefix th matched)" for c
  proof -
    from detect_renames_to_s3_greedy[OF c] obtain c' where
      c': "u_similarity c \<le> u_similarity c'"
          "u_s3_key c' = u_s3_key c \<or> u_local_path c' = u_local_path c"
          "(u_s3_key c', u_info_of c')
              \<in> set (detect_renames_to_s3 local_files s3_objects s3_prefix th matched)" by blast
    show ?thesis
      by (rule bexI[OF _ c'(3)]) (use c'(1,2) in \<open>auto simp: u_info_of_def\<close>)
  qed
  show "case x of (old_s3_key, info) \<Rightarrow>
      th \<le> u_info_similarity info
    \<and> u_info_similarity info
         = calculate_filename_similarity (basename (relative_key s3_prefix old_s3_key))
             (basename (new_local_path info))
    \<and> u_old_filename info = basename (relative_key s3_prefix old_s3_key)
    \<and> u_new_filename info = basename (new_local_path info)
    \<and> (\<forall>c \<in> set (u_potential_renames local_files s3_objects s3_prefix th matched).
          u_info_similarity info < u_similarity c
          \<and> (u_s3_key c = old_s3_key \<or> u_local_path c = new_local_path info) \<longrightarrow>
          (\<exists>(k', info') \<in> set (detect_renames_to_s3 local_files s3_objects s3_prefix th matched).
              (k' = u_s3_key c \<or> new_local_path info' = u_local_path c)
              \<and> u_similarity c \<le> u_info_similarity info'))"
    unfolding xe prod.case using th c0(2,3) g by (simp add: u_info_of_def)
qed


theorem renames_above_threshold_and_greedy_witness:
  "((''new/ab.png'', \<lparr>new_s3_key = ''games/old/abcd.png'', new_s3_rel_path = ''old/abcd.png'',
        info_similarity = 6 / 7, old_filename = ''ab.png'', new_filename = ''abcd.png''\<rparr>)
      \<in> set (detect_renames
          [(''new/ab.png'', \<lparr>hash = ''h1'', fsize = 1, path = ''/w/new/ab.png''\<rparr>),
           (''new/abc.png'', \<lparr>hash = ''h1'', fsize = 1, path = ''/w/new/abc.png''\<rparr>)]
          [\<lparr>Key = ''games/old/abcd.png'', ETag = ''h1'', Size = 1\<rparr>] ''games/'' (7 / 10) {})
    \<and> \<lparr>local_path = ''new/abc.png'', local_filename = ''abc.png'', s3_key = ''games/old/abcd.png'',
        s3_rel_path = ''old/abcd.png'', s3_filename = ''abcd.png'', similarity = 14 / 15\<rparr>
      \<in> set (potential_renames
          [(''new/ab.png'', \<lparr>hash = ''h1'', fsize = 1, path = ''/w/new/ab.png''\<rparr>),
           (''new/abc.png'', \<lparr>hash = ''h1'', fsize = 1, path = ''/w/new/abc.png''\<rparr>)]
          [\<lparr>Key = ''games/old/abcd.png'', ETag = ''h1'', Size = 1\<rparr>] ''games/'' (7 / 10) {})
    \<and> (\<exists>info'. map_of (detect_renames
          [(''new/ab.png'', \<lparr>hash = ''h1'', fsize = 1, path = ''/w/new/ab.png''\<rparr>),
           (''new/abc.png'', \<lparr>hash = ''h1'', fsize = 1, path = ''/w/new/abc.png''\<rparr>)]
          [\<lparr>Key = ''games/old/abcd.png'', ETag = ''h1'', Size = 1\<rparr>] ''games/'' (7 / 10) {})
            ''new/abc.png'' = Some info' \<and> 14 / 15 \<le> info_similarity info'))
 \<and> ((''games/old/logo-old2.png'', \<lparr>new_local_path = ''new/logo12.png'', u_info_similarity = 18 / 23,
        u_old_filename = ''logo-old2.png'', u_new_filename = ''logo12.png''\<rparr>)
      \<in> set (detect_renames_to_s3
          [(''new/logo1.png'', \<lparr>hash = ''h1'', fsize = 1, path = ''/w/new/logo1.png''\<rparr>),
           (''new/logo12.png'', \<lparr>hash = ''h1'', fsize = 1, path = ''/w/new/logo12.png''\<rparr>)]
          [\<lparr>Key = ''games/old/logo.png'', ETag = ''h1'', Size = 1\<rparr>,
           \<lparr>Key = ''games/old/logo-old2.png'', ETag = ''h1'', Size = 1\<rparr>] ''games/'' (7 / 10) {})
    \<and> \<lparr>u_s3_key = ''games/old/logo.png'', u_s3_filename = ''logo.png'',
        u_local_path = ''new/logo12.png'', u_local_filename = ''logo12.png'', u_similarity = 8 / 9\<rparr>
      \<in> set (u_potential_renames
          [(''new/logo1.png'', \<lparr>hash = ''h1'', fsize = 1, path = ''/w/new/logo1.png''\<rparr>),
           (''new/logo12.png'', \<lparr>hash = ''h1'', fsize = 1, path = ''/w/new/logo12.png''\<rparr>)]
          [\<lparr>Key = ''games/old/logo.png'', ETag = ''h1'', Size = 1\<rparr>,
           \<lparr>Key = ''games/old/logo-old2.png'', ETag = ''h1'', Size = 1\<rparr>] ''games/'' (7 / 10) {})
    \<and> (\<exists>(k', info') \<in> set (detect_renames_to_s3
          [(''new/logo1.png'', \<lparr>hash = ''h1'', fsize = 1, path = ''/w/new/logo1.png''\<rparr>),
           (''new/logo12.png'', \<lparr>hash = ''h1'', fsize = 1, path = ''/w/new/logo12.png''\<rparr>)]
          [\<lparr>Key = ''games/old/logo.png'', ETag = ''h1'', Size = 1\<rparr>,
           \<lparr>Key = ''games/old/logo-old2.png'', ETag = ''h1'', Size = 1\<rparr>] ''games/'' (7 / 10) {}).
          (k' = ''games/old/logo.png'' \<or> new_local_path info' = ''new/logo12.png'')
          \<and> 8 / 9 \<le> u_info_similarity info'))"
proof -
  let ?lf = "[(''new/ab.png'', \<lparr>hash = ''h1'', fsize = 1, path = ''/w/new/ab.png''\<rparr>),
           (''new/abc.png'', \<lparr>hash = ''h1'', fsize = 1, path = ''/w/new/abc.png''\<rparr>)]"
  let ?so = "[\<lparr>Key = ''games/old/abcd.png'', ETag = ''h1'', Size = 1\<rparr>]"
  let ?ulf = "[(''new/logo1.png'', \<lparr>hash = ''h1'', fsize = 1, path = ''/w/new/logo1.png''\<rparr>),
           (''new/logo12.png'', \<lparr>hash = ''h1'', fsize = 1, path = ''/w/new/logo12.png''\<rparr>)]"
  let ?uso = "[\<lparr>Key = ''games/old/logo.png'', ETag = ''h1'', Size = 1\<rparr>,
           \<lparr>Key = ''games/old/logo-old2.png'', ETag = ''h1'', Size = 1\<rparr>]"
  have r: "(''new/ab.png'', \<lparr>new_s3_key = ''games/old/abcd.png'', new_s3_rel_path = ''old/abcd.png'',
        info_similarity = 6 / 7, old_filename = ''ab.png'', new_filename = ''abcd.png''\<rparr>)
      \<in> set (detect_renames ?lf ?so ''games/'' (7 / 10) {})"
    by code_simp
  have p: "\<lparr>local_path = ''new/abc.png'', local_filename = ''abc.png'', s3_key = ''games/old/abcd.png'',
        s3_rel_path = ''old/abcd.png'', s3_filename = ''abcd.png'', similarity = 14 / 15\<rparr>
      \<in> set (potential_renames ?lf ?so ''games/'' (7 / 10) {})"
    by code_simp
  have ur: "(''games/old/logo-old2.png'', \<lparr>new_local_path = ''new/logo12.png'', u_info_similarity = 18 / 23,
        u_old_filename = ''logo-old2.png'', u_new_filename = ''logo12.png''\<rparr>)
      \<in> set (detect_renames_to_s3 ?ulf ?uso ''games/'' (7 / 10) {})"
    by code_simp
  have up: "\<lparr>u_s3_key = ''games/old/logo.png'', u_s3_filename = ''logo.png'',
        u_local_path = ''new/logo12.png'', u_local_filename = ''logo12.png'', u_similarity = 8 / 9\<rparr>
      \<in> set (u_potential_renames ?ulf ?uso ''games/'' (7 / 10) {})"
    by code_simp
  have d: "\<exists>info'. map_of (detect_renames ?lf ?so ''games/'' (7 / 10) {}) ''new/abc.png'' = Some info'
              \<and> 14 / 15 \<le> info_similarity info'"
    using renames_above_threshold_and_greedy[of ?lf ?so "''games/''" "7 / 10" "{}",
        THEN conjunct1, THEN bspec, OF r] p
    by (auto dest!: bspec[OF _ p])
  have u: "\<exists>(k', info') \<in> set (detect_renames_to_s3 ?ulf ?uso ''games/'' (7 / 10) {}).
          (k' = ''games/old/logo.png'' \<or> new_local_path info' = ''new/logo12.png'')
          \<and> 8 / 9 \<le> u_info_similarity info'"
  proof -
    note t = renames_above_threshold_and_greedy[of ?ulf ?uso "''games/''" "7 / 10" "{}",
        THEN conjunct2, THEN bspec, OF ur]
    from t have "\<forall>c \<in> set (u_potential_renames ?ulf ?uso ''games/'' (7 / 10) {}).
          18 / 23 < u_similarity c
          \<and> (u_s3_key c = ''games/old/logo-old2.png'' \<or> u_local_path c = ''new/logo12.png'') \<longrightarrow>
          (\<exists>(k', info') \<in> set (detect_renames_to_s3 ?ulf ?uso ''games/'' (7 / 10) {}).
              (k' = u_s3_key c \<or> new_local_path info' = u_local_path c)
              \<and> u_similarity c \<le> u_info_similarity info')"
      by simp
    from this[THEN bspec, OF up] show ?thesis by simp
  qed
  from r p d ur up u show ?thesis by blast
qed


text \<open>
  C9. Whether a path that does not exist locally is a file or a directory should be decided
  by one rule wherever the S3 prefix and the sync scope are derived: a file exactly when the
  last segment contains a dot and the whole path contains no separator. \<open>sync_single_path\<close>
  applies this rule (\<open>path_is_file\<close>), but \<open>parse_project_path\<close> tests the separator on the
  base name, where it never occurs. For the missing path \<open>sub/file.txt\<close> the prefix is derived
  as for a file (the bare base prefix) while the scope is derived as for a directory, so the
  scope is the whole base prefix and an upload with \<open>--yes\<close> deletes every object below it.
\<close>

theorem nested_missing_file_is_file_for_prefix_and_directory_for_scope:
  "is_likely_file ''sub/file.txt''
   \<and> \<not> path_is_file site_without_nested_file ''/site/sub/file.txt'' ''sub/file.txt''
   \<and> parse_project_path site_without_nested_file ''/site'' ''sub/file.txt'' None None
       = (''llg-games'', ''games/pull-tabs/'', ''/site/sub/file.txt'')
   \<and> sync_scope site_without_nested_file ''/site/sub/file.txt'' ''sub/file.txt'' ''games/pull-tabs/''
       = ''games/pull-tabs/''
   \<and> trace (sync_single_path_to_s3 site_without_nested_file ''/site'' ''sub/file.txt'' None None
              False False True)
       = [Call (DeleteObject ''games/pull-tabs/index.html''),
          Call (DeleteObject ''games/pull-tabs/img/logo.png'')]"
  by code_simp

text \<open>
  C4 as stated fails in the upload direction: \<open>sync_to_s3.py\<close> no longer detects renames.
  With \<open>logo.png\<close> local and \<open>logo-old.png\<close> remote, of equal content, the plan has no
  rename; the new name is uploaded as a new file and the old one is deleted as an orphan.
\<close>

theorem upload_has_no_renames:
  "sync_single_path_to_s3 site_new_name_local ''/site'' ''img'' None None False False True
   = \<lparr>totals = \<lparr>transferred = 1, updated = 0, deleted = 1, renamed = 0,
                  folders_deleted = 0, folders_added = 0, failed = 0\<rparr>,
      plan = Some \<lparr>new_files = [''logo.png''], changed_files = [], renames = [],
                   orphaned_files = [''logo-old.png''], folders_to_delete = [],
                   folders_to_add = []\<rparr>,
      trace = [Call (UploadFile ''/site/img/logo.png'' ''games/pull-tabs/img/logo.png''),
               Call (DeleteObject ''games/pull-tabs/img/logo-old.png'')]\<rparr>"
  by code_simp

text \<open>
  C4, amended. In the download direction, when one side has \<open>logo.png\<close> and the other
  \<open>logo-old.png\<close> with the same content, the pair is detected as a rename of the local file
  to the remote name, with similarity \<open>0.8\<close>, and executed as one rename: the old local file
  is deleted and the object is downloaded under the new name.
\<close>

theorem download_renames_logo:
  "calculate_filename_similarity ''logo-old.png'' ''logo.png'' = 4 / 5
   \<and> calculate_filename_similarity ''logo.png'' ''logo-old.png'' = 4 / 5
   \<and> sync_single_path_from_s3 site_old_name_local ''/site'' ''img'' None None False False True
       = Inr \<lparr>totals = \<lparr>transferred = 0, updated = 0, deleted = 0, renamed = 1,
                  folders_deleted = 0, folders_added = 0, failed = 0\<rparr>,
              plan = Some \<lparr>new_files = [''logo.png''], changed_files = [],
                   renames = [(''logo-old.png'',
                       \<lparr>new_s3_key = ''games/pull-tabs/img/logo.png'',
                        new_s3_rel_path = ''logo.png'', info_similarity = 4 / 5,
                        old_filename = ''logo-old.png'', new_filename = ''logo.png''\<rparr>)],
                   orphaned_files = [], folders_to_delete = [], folders_to_add = []\<rparr>,
              trace = [Call (DeleteLocalFile ''/site/img/logo-old.png''),
                       Call (DownloadFile ''games/pull-tabs/img/logo.png''
                               ''/site/img/logo.png'')]\<rparr>
   \<and> sync_single_path_from_s3 site_new_name_local ''/site'' ''img'' None None False False True
       = Inr \<lparr>totals = \<lparr>transferred = 0, updated = 0, deleted = 0, renamed = 1,
                  folders_deleted = 0, folders_added = 0, failed = 0\<rparr>,
              plan = Some \<lparr>new_files = [''logo-old.png''], changed_files = [],
                   renames = [(''logo.png'',
                       \<lparr>new_s3_key = ''games/pull-tabs/img/logo-old.png'',
                        new_s3_rel_path = ''logo-old.png'', info_similarity = 4 / 5,
                        old_filename = ''logo.png'', new_filename = ''logo-old.png''\<rparr>)],
                   orphaned_files = [], folders_to_delete = [], folders_to_add = []\<rparr>,
              trace = [Call (DeleteLocalFile ''/site/img/logo.png''),
                       Call (DownloadFile ''games/pull-tabs/img/logo-old.png''
                               ''/site/img/logo-old.png'')]\<rparr>"
  by code_simp


text \<open>
  C2 as stated fails in the upload direction: with \<open>--yes\<close>, \<open>sync_single_path\<close> of
  \<open>sync_to_s3.py\<close> runs \<open>sync_to_s3\<close> at once, and \<open>sync_to_s3\<close> never asks. When the local
  directory is gone, the objects below it are deleted without any question.
\<close>

theorem upload_with_yes_deletes_without_asking:
  "trace (sync_single_path_to_s3 site_without_img ''/site'' ''img'' None None False False True)
     = [Call (DeleteObject ''games/pull-tabs/img/a.png''),
        Call (DeleteObject ''games/pull-tabs/img/b.png'')]
   \<and> deleted (totals (sync_single_path_to_s3 site_without_img ''/site'' ''img'' None None
                         False False True)) = 2"
  by code_simp

text \<open>
  C2, amended to the download direction. A run of \<open>sync_from_s3\<close> that is not a dry run
  first makes its transfers (downloads and renames), which never ask anything. Then, when
  there are orphaned local files, it asks once before deleting: after a \<open>yes\<close> the files are
  deleted; otherwise, also when the input is interrupted or closed, no file is deleted, the
  skip is reported and the counters stay as they were after the transfers, so nothing is
  counted as deleted or as failed. With \<open>--yes\<close>, \<open>sync_single_path\<close> is exactly one such run
  (or the report that S3 could not be listed): there is no preview and no question about the
  sync as a whole.
\<close>

theorem local_deletions_need_confirmation:
  "(\<exists>cnt. transfers_from_s3 env local_files s3_objects s3_prefix local_base_path force False scope
            = Inr (cnt, transfer_events env local_files s3_objects s3_prefix local_base_path force
                          False scope)
      \<and> (let orphans = orphans_from_s3 env local_files s3_objects s3_prefix local_base_path scope;
              transfers = transfer_events env local_files s3_objects s3_prefix local_base_path
                            force False scope
          in if orphans = []
             then (\<exists>c. sync_from_s3 env local_files s3_objects s3_prefix local_base_path force
                          False scope = Inr (c, transfers))
             else if confirmed (user env ProceedWithDeletion)
             then (\<exists>c. sync_from_s3 env local_files s3_objects s3_prefix local_base_path force
                          False scope
                        = Inr (c, transfers @ Asked ProceedWithDeletion
                                  # map (\<lambda>orphan. Call (DeleteLocalFile (fst orphan))) orphans))
             else sync_from_s3 env local_files s3_objects s3_prefix local_base_path force
                    False scope
                  = Inr (cnt, transfers @ [Asked ProceedWithDeletion, Said SkippingFileDeletions])))
   \<and> (\<forall>p. Asked p \<notin> set (transfer_events env local_files s3_objects s3_prefix local_base_path
                               force False scope))
   \<and> (\<exists>r. sync_single_path_from_s3 env project_root project_path bucket_override prefix_override
              force False True = Inr r
          \<and> (plan r = None \<and> trace r = [Said ErrorCheckingS3]
              \<or> (\<exists>files objects pfx base sc.
                     sync_from_s3 env files objects pfx base force False (Some sc)
                       = Inr (totals r, trace r))))"
proof (intro conjI)
  obtain cnt where t: "transfers_from_s3 env local_files s3_objects s3_prefix local_base_path
       force False scope
     = Inr (cnt, transfer_events env local_files s3_objects s3_prefix local_base_path force
                          False scope)"
    using transfers_from_s3_returns by blast
  obtain c where s: "sync_from_s3 env local_files s3_objects s3_prefix local_base_path force
       False scope
     = Inr (c, transfer_events env local_files s3_objects s3_prefix local_base_path force
                   False scope
                 @ deletion_events env False
                     (orphans_from_s3 env local_files s3_objects s3_prefix local_base_path scope))"
    using sync_from_s3_returns by blast
  show "\<exists>cnt. transfers_from_s3 env local_files s3_objects s3_prefix local_base_path force False scope
            = Inr (cnt, transfer_events env local_files s3_objects s3_prefix local_base_path force
                          False scope)
      \<and> (let orphans = orphans_from_s3 env local_files s3_objects s3_prefix local_base_path scope;
              transfers = transfer_events env local_files s3_objects s3_prefix local_base_path
                            force False scope
          in if orphans = []
             then (\<exists>c. sync_from_s3 env local_files s3_objects s3_prefix local_base_path force
                          False scope = Inr (c, transfers))
             else if confirmed (user env ProceedWithDeletion)
             then (\<exists>c. sync_from_s3 env local_files s3_objects s3_prefix local_base_path force
                          False scope
                        = Inr (c, transfers @ Asked ProceedWithDeletion
                                  # map (\<lambda>orphan. Call (DeleteLocalFile (fst orphan))) orphans))
             else sync_from_s3 env local_files s3_objects s3_prefix local_base_path force
                    False scope
                  = Inr (cnt, transfers @ [Asked ProceedWithDeletion, Said SkippingFileDeletions]))"
  proof (rule exI[of _ cnt], rule conjI[OF t], unfold Let_def)
    show "if orphans_from_s3 env local_files s3_objects s3_prefix local_base_path scope = []
       then \<exists>c. sync_from_s3 env local_files s3_objects s3_prefix local_base_path force False scope
               = Inr (c, transfer_events env local_files s3_objects s3_prefix local_base_path
                           force False scope)
       else if confirmed (user env ProceedWithDeletion)
       then \<exists>c. sync_from_s3 env local_files s3_objects s3_prefix local_base_path force False scope
               = Inr (c, transfer_events env local_files s3_objects s3_prefix local_base_path
                           force False scope
                         @ Asked ProceedWithDeletion
                           # map (\<lambda>orphan. Call (DeleteLocalFile (fst orphan)))
                               (orphans_from_s3 env local_files s3_objects s3_prefix
                                  local_base_path scope))
       else sync_from_s3 env local_files s3_objects s3_prefix local_base_path force False scope
            = Inr (cnt, transfer_events env local_files s3_objects s3_prefix local_base_path
                          force False scope
                        @ [Asked ProceedWithDeletion, Said SkippingFileDeletions])"
    proof (cases "orphans_from_s3 env local_files s3_objects s3_prefix local_base_path scope = []")
      case True
      then show ?thesis using s by (simp add: deletion_events_def)
    next
      case False
      show ?thesis
      proof (cases "confirmed (user env ProceedWithDeletion)")
        case True
        then show ?thesis using s False by (simp add: deletion_events_def)
      next
        case False
        from sync_from_s3_declined[OF \<open>orphans_from_s3 env local_files s3_objects s3_prefix
            local_base_path scope \<noteq> []\<close> False t]
        show ?thesis using False
          \<open>orphans_from_s3 env local_files s3_objects s3_prefix local_base_path scope \<noteq> []\<close>
          by simp
      qed
    qed
  qed
next
  show "\<forall>p. Asked p \<notin> set (transfer_events env local_files s3_objects s3_prefix local_base_path
                               force False scope)"
    using transfer_events_calls by fastforce
next
  obtain b pfx lp where p: "parse_project_path env project_root project_path bucket_override
      prefix_override = (b, pfx, lp)" by (cases "parse_project_path env project_root project_path
      bucket_override prefix_override")
  let ?lf = "if path_exists env lp then scan_local_files_from_s3 env lp else []"
  let ?sc = "sync_scope env lp project_path pfx"
  show "\<exists>r. sync_single_path_from_s3 env project_root project_path bucket_override prefix_override
              force False True = Inr r
          \<and> (plan r = None \<and> trace r = [Said ErrorCheckingS3]
              \<or> (\<exists>files objects pfx base sc.
                     sync_from_s3 env files objects pfx base force False (Some sc)
                       = Inr (totals r, trace r)))"
  proof (cases "fetch_s3_objects env (path_is_file env lp project_path) pfx
                  (scope_filename env lp project_path)")
    case None
    then show ?thesis by (simp add: sync_single_path_from_s3_def p Let_def)
  next
    case (Some so)
    obtain c e where s: "sync_from_s3 env ?lf so pfx lp force False (Some ?sc) = Inr (c, e)"
      using sync_from_s3_returns by blast
    have "sync_single_path_from_s3 env project_root project_path bucket_override prefix_override
              force False True
          = Inr \<lparr>totals = c,
                 plan = Some (preview_from_s3 ?lf so pfx ?sc (path_is_file env lp project_path)
                                project_path),
                 trace = e\<rparr>"
      by (simp add: sync_single_path_from_s3_def p Let_def Some s)
    then show ?thesis using s by (intro exI conjI disjI2) auto
  qed
qed


theorem local_deletions_need_confirmation_witness:
  "sync_from_s3 site_with_extra_local_file
     [(''keep.png'', \<lparr>hash = ''h1'', fsize = 20, path = ''/site/img/keep.png''\<rparr>),
      (''extra.txt'', \<lparr>hash = ''h2'', fsize = 5, path = ''/site/img/extra.txt''\<rparr>)]
     (bucket site_with_extra_local_file) ''games/pull-tabs/img/'' ''/site/img'' False False
     (Some ''games/pull-tabs/img/'')
   = Inr (\<lparr>transferred = 1, updated = 0, deleted = 0, renamed = 0,
            folders_deleted = 0, folders_added = 0, failed = 0\<rparr>,
          [Call (DownloadFile ''games/pull-tabs/img/new.css'' ''/site/img/new.css''),
           Asked ProceedWithDeletion, Said SkippingFileDeletions])"
proof -
  let ?lf = "[(''keep.png'', \<lparr>hash = ''h1'', fsize = 20, path = ''/site/img/keep.png''\<rparr>),
      (''extra.txt'', \<lparr>hash = ''h2'', fsize = 5, path = ''/site/img/extra.txt''\<rparr>)]"
  let ?cnt = "\<lparr>transferred = 1, updated = 0, deleted = 0, renamed = 0,
            folders_deleted = 0, folders_added = 0, failed = 0\<rparr>"
  have t: "transfers_from_s3 site_with_extra_local_file ?lf (bucket site_with_extra_local_file)
             ''games/pull-tabs/img/'' ''/site/img'' False False (Some ''games/pull-tabs/img/'')
           = Inr (?cnt, [Call (DownloadFile ''games/pull-tabs/img/new.css'' ''/site/img/new.css'')])"
    by code_simp
  have o: "orphans_from_s3 site_with_extra_local_file ?lf (bucket site_with_extra_local_file)
             ''games/pull-tabs/img/'' ''/site/img'' (Some ''games/pull-tabs/img/'') \<noteq> []"
    by code_simp
  have c: "\<not> confirmed (user site_with_extra_local_file ProceedWithDeletion)"
    by code_simp
  from local_deletions_need_confirmation[of site_with_extra_local_file ?lf
      "bucket site_with_extra_local_file" "''games/pull-tabs/img/''" "''/site/img''" False
      "Some ''games/pull-tabs/img/''", THEN conjunct1]
  obtain cnt where 1: "transfers_from_s3 site_with_extra_local_file ?lf
        (bucket site_with_extra_local_file)
        ''games/pull-tabs/img/'' ''/site/img'' False False (Some ''games/pull-tabs/img/'')
      = Inr (cnt, transfer_events site_with_extra_local_file ?lf
          (bucket site_with_extra_local_file)
          ''games/pull-tabs/img/'' ''/site/img'' False False (Some ''games/pull-tabs/img/''))"
    and 2: "sync_from_s3 site_with_extra_local_file ?lf
        (bucket site_with_extra_local_file)
        ''games/pull-tabs/img/'' ''/site/img'' False False (Some ''games/pull-tabs/img/'')
      = Inr (cnt, transfer_events site_with_extra_local_file ?lf
          (bucket site_with_extra_local_file)
          ''games/pull-tabs/img/'' ''/site/img'' False False (Some ''games/pull-tabs/img/'')
          @ [Asked ProceedWithDeletion, Said SkippingFileDeletions])"
    using o c by (auto simp: Let_def)
  from 1 t have "cnt = ?cnt" and "transfer_events site_with_extra_local_file ?lf
          (bucket site_with_extra_local_file)
          ''games/pull-tabs/img/'' ''/site/img'' False False (Some ''games/pull-tabs/img/'')
     = [Call (DownloadFile ''games/pull-tabs/img/new.css'' ''/site/img/new.css'')]"
    by simp_all
  with 2 show ?thesis by simp
qed


text \<open>
  C5. For the same inputs, \<open>sync_single_path\<close> computes the same plan (new, changed,
  renamed and orphaned files, folders to delete and to add) with and without \<open>--dry-run\<close>,
  whatever \<open>--yes\<close> is, in both directions; and a dry run makes no mutating call: no upload,
  no download with its directory creation, no deletion. The download direction never ends
  with an exception.
\<close>

theorem dry_run_same_plan_no_mutation:
  "plan (sync_single_path_to_s3 env project_root project_path bucket_override prefix_override
           force True yes)
     = plan (sync_single_path_to_s3 env project_root project_path bucket_override prefix_override
               force False yes')
   \<and> filter mutating (trace (sync_single_path_to_s3 env project_root project_path
                               bucket_override prefix_override force True yes)) = []
   \<and> (\<exists>r r'. sync_single_path_from_s3 env project_root project_path bucket_override
                  prefix_override force True yes = Inr r
             \<and> sync_single_path_from_s3 env project_root project_path bucket_override
                  prefix_override force False yes' = Inr r'
             \<and> plan r = plan r'
             \<and> filter mutating (trace r) = [])"
proof -
  obtain r where r: "sync_single_path_from_s3 env project_root project_path bucket_override
          prefix_override force True yes = Inr r"
       "plan r = planned_from_s3 env project_root project_path bucket_override prefix_override"
       "filter mutating (trace r) = []"
    using sync_single_path_from_s3_returns[of env project_root project_path bucket_override
            prefix_override force True yes] by auto
  obtain r' where r': "sync_single_path_from_s3 env project_root project_path bucket_override
          prefix_override force False yes' = Inr r'"
       "plan r' = planned_from_s3 env project_root project_path bucket_override prefix_override"
    using sync_single_path_from_s3_returns[of env project_root project_path bucket_override
            prefix_override force False yes'] by auto
  show ?thesis
    using r r' by (simp add: plan_sync_single_path_to_s3 dry_run_sync_single_path_to_s3)
qed



text \<open>
  C1. In every run of \<open>sync_single_path\<close>, in either direction, whatever is proposed for
  deletion or deleted lies within the sync scope of the run, provided that normalising a
  path twice is the same as normalising it once. Upload: every orphaned file of the plan,
  prefixed by the S3 prefix, starts with the scope, and so does the key of every object that
  is deleted, folder markers included. Download: the run returns; every orphaned file of its
  plan, prefixed by the S3 prefix, starts with the scope; and every local file that is deleted,
  as an orphan or as the old name of a rename, is a file found by the scan of the local path
  and its S3 key starts with the scope. So what is outside the scope is never deleted,
  whether or not it exists on the other side.
\<close>

theorem deletions_within_scope:
  assumes idem: "\<forall>p. normpath env (normpath env p) = normpath env p"
    and parse: "parse_project_path env project_root project_path bucket_override prefix_override
                  = (bucket_name, s3_prefix, lpath)"
  shows "(\<forall>pv. plan (sync_single_path_to_s3 env project_root project_path bucket_override
                      prefix_override force dry_run yes) = Some pv \<longrightarrow>
            (\<forall>p \<in> set (orphaned_files pv).
               prefix (sync_scope env lpath project_path s3_prefix) (s3_prefix @ p)))
       \<and> (\<forall>k. Call (DeleteObject k)
                  \<in> set (trace (sync_single_path_to_s3 env project_root project_path
                                  bucket_override prefix_override force dry_run yes)) \<longrightarrow>
               prefix (sync_scope env lpath project_path s3_prefix) k)
       \<and> (\<exists>r. sync_single_path_from_s3 env project_root project_path bucket_override
                  prefix_override force dry_run yes = Inr r
              \<and> (\<forall>pv. plan r = Some pv \<longrightarrow>
                     (\<forall>p \<in> set (orphaned_files pv).
                        prefix (sync_scope env lpath project_path s3_prefix) (s3_prefix @ p)))
              \<and> (\<forall>f. Call (DeleteLocalFile f) \<in> set (trace r) \<longrightarrow>
                     (\<exists>(rel, info) \<in> set (scan_local_files_from_s3 env lpath).
                        path info = f
                        \<and> prefix (sync_scope env lpath project_path s3_prefix)
                             (s3_prefix @ rel))))"
proof (intro conjI)
  define sc where "sc = sync_scope env lpath project_path s3_prefix"
  define isf where "isf = path_is_file env lpath project_path"
  define up where "up = (if path_exists env lpath then scan_local_files_to_s3 env lpath else [])"
  define lf where "lf = (if path_exists env lpath then scan_local_files_from_s3 env lpath else [])"
  let ?fetch = "fetch_s3_objects env isf s3_prefix (scope_filename env lpath project_path)"
  have key: "prefix sc (s3_prefix @ relative_key s3_prefix (Key obj))"
    if "?fetch = Some so" "obj \<in> set so" for so obj
    using fetched_in_scope[OF that(1)[unfolded isf_def] that(2)]
    by (simp add: sc_def relative_key_prefix)
  have local: "prefix sc (s3_prefix @ rel) \<and> (rel, info) \<in> set (scan_local_files_from_s3 env lpath)"
    if "(rel, info) \<in> set lf" for rel info
    using scanned_in_scope[OF idem parse, where rel = rel and info = info and skip = "{}"
            and keep = "\<lambda>d. True"] that
    by (simp add: lf_def sc_def scan_local_files_from_s3_def split: if_splits)
  show "\<forall>pv. plan (sync_single_path_to_s3 env project_root project_path bucket_override
                      prefix_override force dry_run yes) = Some pv \<longrightarrow>
            (\<forall>p \<in> set (orphaned_files pv).
               prefix (sync_scope env lpath project_path s3_prefix) (s3_prefix @ p))"
  proof (intro allI impI ballI)
    fix pv p
    assume pv: "plan (sync_single_path_to_s3 env project_root project_path bucket_override
                      prefix_override force dry_run yes) = Some pv"
      and p: "p \<in> set (orphaned_files pv)"
    from pv obtain so where so: "?fetch = Some so"
      and "pv = preview_to_s3 up so s3_prefix sc isf project_path force"
      by (auto simp: plan_sync_single_path_to_s3 planned_to_s3_def parse up_def sc_def isf_def
               split: option.splits)
    with orphaned_files_preview_to_s3[of p up so s3_prefix sc isf project_path force] p
    obtain obj where "obj \<in> set so" "p = relative_key s3_prefix (Key obj)" by blast
    with key[OF so] show "prefix (sync_scope env lpath project_path s3_prefix) (s3_prefix @ p)"
      by (simp add: sc_def)
  qed
  show "\<forall>k. Call (DeleteObject k)
                  \<in> set (trace (sync_single_path_to_s3 env project_root project_path
                                  bucket_override prefix_override force dry_run yes)) \<longrightarrow>
               prefix (sync_scope env lpath project_path s3_prefix) k"
  proof (intro allI impI)
    fix k
    assume "Call (DeleteObject k)
              \<in> set (trace (sync_single_path_to_s3 env project_root project_path
                              bucket_override prefix_override force dry_run yes))"
    then obtain so dry where "Call (DeleteObject k)
        \<in> set (snd (sync_to_s3 env up so s3_prefix force dry (Some sc)))"
      by (auto simp: sync_single_path_to_s3_def parse Let_def up_def[symmetric]
            sc_def[symmetric] isf_def[symmetric] split: option.splits if_splits)
    from deletions_of_sync_to_s3[OF this]
    show "prefix (sync_scope env lpath project_path s3_prefix) k"
      by (simp add: in_scope_def sc_def)
  qed
  show "\<exists>r. sync_single_path_from_s3 env project_root project_path bucket_override
                  prefix_override force dry_run yes = Inr r
              \<and> (\<forall>pv. plan r = Some pv \<longrightarrow>
                     (\<forall>p \<in> set (orphaned_files pv).
                        prefix (sync_scope env lpath project_path s3_prefix) (s3_prefix @ p)))
              \<and> (\<forall>f. Call (DeleteLocalFile f) \<in> set (trace r) \<longrightarrow>
                     (\<exists>(rel, info) \<in> set (scan_local_files_from_s3 env lpath).
                        path info = f
                        \<and> prefix (sync_scope env lpath project_path s3_prefix)
                             (s3_prefix @ rel)))"
  proof (cases ?fetch)
    case None
    then show ?thesis
      by (simp add: sync_single_path_from_s3_def parse Let_def isf_def)
  next
    case (Some so)
    let ?events = "transfer_events env lf so s3_prefix lpath force False (Some sc)
                   @ deletion_events env False
                       (orphans_from_s3 env lf so s3_prefix lpath (Some sc))"
    obtain c0 where d: "sync_from_s3 env lf so s3_prefix lpath force True (Some sc) = Inr (c0, [])"
      using sync_from_s3_dry_run by blast
    obtain c1 where a: "sync_from_s3 env lf so s3_prefix lpath force False (Some sc)
                          = Inr (c1, ?events)"
      using sync_from_s3_returns by blast
    have orphaned: "\<forall>p \<in> set (orphaned_files (preview_from_s3 lf so s3_prefix sc isf project_path)).
                      prefix sc (s3_prefix @ p)"
    proof
      fix p assume "p \<in> set (orphaned_files (preview_from_s3 lf so s3_prefix sc isf project_path))"
      from orphaned_files_preview_from_s3[OF this] obtain info where "(p, info) \<in> set lf"
        by auto
      from local[OF this] show "prefix sc (s3_prefix @ p)" by simp
    qed
    have deleted: "\<forall>f. Call (DeleteLocalFile f) \<in> set ?events \<longrightarrow>
                     (\<exists>(rel, info) \<in> set (scan_local_files_from_s3 env lpath).
                        path info = f \<and> prefix sc (s3_prefix @ rel))"
    proof (intro allI impI)
      fix f assume "Call (DeleteLocalFile f) \<in> set ?events"
      from local_deletions_of_sync_from_s3[OF this] obtain rel info where
        "(rel, info) \<in> set lf" "path info = f" by auto
      with local[OF this(1)]
      show "\<exists>(rel, info) \<in> set (scan_local_files_from_s3 env lpath).
              path info = f \<and> prefix sc (s3_prefix @ rel)" by auto
    qed
    show ?thesis
      using orphaned deleted
      by (simp add: sync_single_path_from_s3_def parse Let_def Some
            lf_def[symmetric] sc_def[symmetric] isf_def[symmetric] d a)
  qed
qed

theorem deletions_within_scope_witness:
  "(\<forall>p. normpath site_with_orphans_on_both_sides (normpath site_with_orphans_on_both_sides p)
          = normpath site_with_orphans_on_both_sides p)
   \<and> parse_project_path site_with_orphans_on_both_sides ''/site'' ''img'' None None
       = (''llg-games'', ''games/pull-tabs/img/'', ''/site/img'')
   \<and> trace (sync_single_path_to_s3 site_with_orphans_on_both_sides ''/site'' ''img'' None None
               False False True)
       = [Call (UploadFile ''/site/img/extra.txt'' ''games/pull-tabs/img/extra.txt''),
          Call (DeleteObject ''games/pull-tabs/img/new.css'')]
   \<and> prefix (sync_scope site_with_orphans_on_both_sides ''/site/img'' ''img''
                ''games/pull-tabs/img/'')
              ''games/pull-tabs/img/new.css''
   \<and> (\<exists>r. sync_single_path_from_s3 site_with_orphans_on_both_sides ''/site'' ''img'' None None
              False False True = Inr r
          \<and> trace r = [Call (DownloadFile ''games/pull-tabs/img/new.css'' ''/site/img/new.css''),
                        Asked ProceedWithDeletion,
                        Call (DeleteLocalFile ''/site/img/extra.txt'')])
   \<and> (\<exists>(rel, info) \<in> set (scan_local_files_from_s3 site_with_orphans_on_both_sides ''/site/img'').
          path info = ''/site/img/extra.txt''
          \<and> prefix (sync_scope site_with_orphans_on_both_sides ''/site/img'' ''img''
                       ''games/pull-tabs/img/'')
                     (''games/pull-tabs/img/'' @ rel))"
proof -
  let ?site = site_with_orphans_on_both_sides
  have idem: "\<forall>p. normpath ?site (normpath ?site p) = normpath ?site p"
    by (simp add: site_with_orphans_on_both_sides_def)
  have parse: "parse_project_path ?site ''/site'' ''img'' None None
                 = (''llg-games'', ''games/pull-tabs/img/'', ''/site/img'')"
    by code_simp
  have up: "trace (sync_single_path_to_s3 ?site ''/site'' ''img'' None None False False True)
       = [Call (UploadFile ''/site/img/extra.txt'' ''games/pull-tabs/img/extra.txt''),
          Call (DeleteObject ''games/pull-tabs/img/new.css'')]"
    by code_simp
  have down: "sync_single_path_from_s3 ?site ''/site'' ''img'' None None False False True
       = Inr \<lparr>totals = \<lparr>transferred = 1, updated = 0, deleted = 1, renamed = 0,
                          folders_deleted = 0, folders_added = 0, failed = 0\<rparr>,
              plan = Some \<lparr>new_files = [''new.css''], changed_files = [], renames = [],
                           orphaned_files = [''extra.txt''], folders_to_delete = [],
                           folders_to_add = []\<rparr>,
              trace = [Call (DownloadFile ''games/pull-tabs/img/new.css'' ''/site/img/new.css''),
                       Asked ProceedWithDeletion,
                       Call (DeleteLocalFile ''/site/img/extra.txt'')]\<rparr>"
    by code_simp
  note scope = deletions_within_scope[OF idem parse, where force = False and dry_run = False
                 and yes = True]
  from scope up have 1: "prefix (sync_scope ?site ''/site/img'' ''img'' ''games/pull-tabs/img/'')
              ''games/pull-tabs/img/new.css''"
    by simp
  from scope have "\<forall>f. Call (DeleteLocalFile f)
         \<in> set [Call (DownloadFile ''games/pull-tabs/img/new.css'' ''/site/img/new.css''),
                 Asked ProceedWithDeletion, Call (DeleteLocalFile ''/site/img/extra.txt'')] \<longrightarrow>
       (\<exists>(rel, info) \<in> set (scan_local_files_from_s3 ?site ''/site/img'').
          path info = f
          \<and> prefix (sync_scope ?site ''/site/img'' ''img'' ''games/pull-tabs/img/'')
                     (''games/pull-tabs/img/'' @ rel))"
    unfolding down by simp
  then have 2: "\<exists>(rel, info) \<in> set (scan_local_files_from_s3 ?site ''/site/img'').
          path info = ''/site/img/extra.txt''
          \<and> prefix (sync_scope ?site ''/site/img'' ''img'' ''games/pull-tabs/img/'')
                     (''games/pull-tabs/img/'' @ rel)"
    by simp
  from idem parse up 1 2 down show ?thesis by simp
qed


text \<open>
  C8. Take a file that is present on both sides under the same relative path and with the
  same hash, in a run that is not a dry run. With \<open>force\<close>, \<open>sync_to_s3\<close> uploads the local file to
  its key again, and \<open>sync_from_s3\<close> returns and downloads the object again to the local path
  of the file. Without \<open>force\<close>, \<open>sync_to_s3\<close> uploads nothing to that key, and \<open>sync_from_s3\<close>
  returns and downloads that object to no path at all, neither as a download nor as the
  second half of a rename.
\<close>

theorem force_retransfers_identical_file:
  assumes "distinct (map fst local_files)"
    and "map_of local_files p = Some info"
    and "map_of (build_s3_files s3_objects s3_prefix) p = Some s"
    and "hash info = s3_file_hash s"
  shows "Call (UploadFile (path info) (s3_prefix @ p))
           \<in> set (snd (sync_to_s3 env local_files s3_objects s3_prefix True False scope))
       \<and> (\<forall>f. Call (UploadFile f (s3_prefix @ p))
                 \<notin> set (snd (sync_to_s3 env local_files s3_objects s3_prefix False False scope)))
       \<and> (\<exists>cnt evs. sync_from_s3 env local_files s3_objects s3_prefix local_base_path True False
                       scope = Inr (cnt, evs)
             \<and> Call (DownloadFile (s3_file_key s)
                        (if is_file_sync env local_base_path scope then local_base_path
                         else normpath env (join_path local_base_path p))) \<in> set evs)
       \<and> (\<exists>cnt evs. sync_from_s3 env local_files s3_objects s3_prefix local_base_path False False
                       scope = Inr (cnt, evs)
             \<and> (\<forall>t. Call (DownloadFile (s3_file_key s) t) \<notin> set evs))"
proof (intro conjI allI)
  show "Call (UploadFile (path info) (s3_prefix @ p))
           \<in> set (snd (sync_to_s3 env local_files s3_objects s3_prefix True False scope))"
    using forced_upload[OF map_of_SomeD[OF assms(2)] assms(3)] .
  show "Call (UploadFile f (s3_prefix @ p))
          \<notin> set (snd (sync_to_s3 env local_files s3_objects s3_prefix False False scope))" for f
    using unforced_upload[OF assms] .
  obtain cnt where "sync_from_s3 env local_files s3_objects s3_prefix local_base_path True False
                       scope
      = Inr (cnt, transfer_events env local_files s3_objects s3_prefix local_base_path True False
                     scope
                  @ deletion_events env False
                      (orphans_from_s3 env local_files s3_objects s3_prefix local_base_path
                         scope))"
    using sync_from_s3_returns by blast
  with forced_download[OF assms(3,2,4)]
  show "\<exists>cnt evs. sync_from_s3 env local_files s3_objects s3_prefix local_base_path True False
                       scope = Inr (cnt, evs)
             \<and> Call (DownloadFile (s3_file_key s)
                        (if is_file_sync env local_base_path scope then local_base_path
                         else normpath env (join_path local_base_path p))) \<in> set evs"
    by (intro exI conjI) (assumption, simp)
  obtain cnt' where "sync_from_s3 env local_files s3_objects s3_prefix local_base_path False False
                       scope
      = Inr (cnt', transfer_events env local_files s3_objects s3_prefix local_base_path False
                     False scope
                  @ deletion_events env False
                      (orphans_from_s3 env local_files s3_objects s3_prefix local_base_path
                         scope))"
    using sync_from_s3_returns by blast
  with unforced_download[OF assms(3,2,4)]
  show "\<exists>cnt evs. sync_from_s3 env local_files s3_objects s3_prefix local_base_path False False
                       scope = Inr (cnt, evs)
             \<and> (\<forall>t. Call (DownloadFile (s3_file_key s) t) \<notin> set evs)"
    by (intro exI conjI) (assumption, blast)
qed

theorem force_retransfers_identical_file_witness:
  "distinct (map fst [(''keep.png'', \<lparr>hash = ''h1'', fsize = 20, path = ''/site/img/keep.png''\<rparr>)])
   \<and> map_of [(''keep.png'', \<lparr>hash = ''h1'', fsize = 20, path = ''/site/img/keep.png''\<rparr>)]
         ''keep.png''
       = Some \<lparr>hash = ''h1'', fsize = 20, path = ''/site/img/keep.png''\<rparr>
   \<and> map_of (build_s3_files (bucket site_with_extra_local_file) ''games/pull-tabs/img/'')
         ''keep.png''
       = Some \<lparr>s3_file_key = ''games/pull-tabs/img/keep.png'', s3_file_hash = ''h1'',
                s3_file_size = 20\<rparr>
   \<and> Call (UploadFile ''/site/img/keep.png'' ''games/pull-tabs/img/keep.png'')
         \<in> set (snd (sync_to_s3 site_with_extra_local_file
                        [(''keep.png'', \<lparr>hash = ''h1'', fsize = 20, path = ''/site/img/keep.png''\<rparr>)]
                        (bucket site_with_extra_local_file) ''games/pull-tabs/img/'' True False
                        (Some ''games/pull-tabs/img/'')))
   \<and> (\<forall>f. Call (UploadFile f ''games/pull-tabs/img/keep.png'')
         \<notin> set (snd (sync_to_s3 site_with_extra_local_file
                        [(''keep.png'', \<lparr>hash = ''h1'', fsize = 20, path = ''/site/img/keep.png''\<rparr>)]
                        (bucket site_with_extra_local_file) ''games/pull-tabs/img/'' False False
                        (Some ''games/pull-tabs/img/''))))
   \<and> (\<exists>cnt evs. sync_from_s3 site_with_extra_local_file
                     [(''keep.png'', \<lparr>hash = ''h1'', fsize = 20, path = ''/site/img/keep.png''\<rparr>)]
                     (bucket site_with_extra_local_file) ''games/pull-tabs/img/'' ''/site/img''
                     True False (Some ''games/pull-tabs/img/'') = Inr (cnt, evs)
          \<and> Call (DownloadFile ''games/pull-tabs/img/keep.png'' ''/site/img/keep.png'') \<in> set evs)
   \<and> (\<exists>cnt evs. sync_from_s3 site_with_extra_local_file
                     [(''keep.png'', \<lparr>hash = ''h1'', fsize = 20, path = ''/site/img/keep.png''\<rparr>)]
                     (bucket site_with_extra_local_file) ''games/pull-tabs/img/'' ''/site/img''
                     False False (Some ''games/pull-tabs/img/'') = Inr (cnt, evs)
          \<and> (\<forall>t. Call (DownloadFile ''games/pull-tabs/img/keep.png'' t) \<notin> set evs))"
proof -
  let ?lf = "[(''keep.png'', \<lparr>hash = ''h1'', fsize = 20, path = ''/site/img/keep.png''\<rparr>)]"
  have 1: "distinct (map fst ?lf)" by simp
  have 2: "map_of ?lf ''keep.png''
             = Some \<lparr>hash = ''h1'', fsize = 20, path = ''/site/img/keep.png''\<rparr>" by simp
  have 3: "map_of (build_s3_files (bucket site_with_extra_local_file) ''games/pull-tabs/img/'')
             ''keep.png''
           = Some \<lparr>s3_file_key = ''games/pull-tabs/img/keep.png'', s3_file_hash = ''h1'',
                    s3_file_size = 20\<rparr>" by code_simp
  have 4: "hash \<lparr>hash = ''h1'', fsize = 20, path = ''/site/img/keep.png''\<rparr>
           = s3_file_hash \<lparr>s3_file_key = ''games/pull-tabs/img/keep.png'', s3_file_hash = ''h1'',
                            s3_file_size = 20\<rparr>" by simp
  have 5: "\<not> is_file_sync site_with_extra_local_file ''/site/img'' (Some ''games/pull-tabs/img/'')"
    by code_simp
  have 6: "normpath site_with_extra_local_file (join_path ''/site/img'' ''keep.png'')
           = ''/site/img/keep.png''" by code_simp
  note force = force_retransfers_identical_file[OF 1 2 3 4,
      where env = site_with_extra_local_file and scope = "Some ''games/pull-tabs/img/''"
        and local_base_path = "''/site/img''"]
  from force 1 2 3 show ?thesis by (simp add: 5 6)
qed


text \<open>
  C6 as stated fails for the plan of the upload direction when \<open>--force\<close> is given: its
  \<open>changed_files\<close> are the files that ``will be updated (hash differs OR force is enabled)''.
  Here \<open>keep.png\<close> has the same relative path and the same hash on both sides and is listed
  as changed.
\<close>

theorem upload_plan_lists_identical_file_with_force:
  "map_of (scan_local_files_to_s3 site_with_extra_local_file ''/site/img'') ''keep.png''
     = Some \<lparr>hash = ''h1'', fsize = 20, path = ''/site/img/keep.png''\<rparr>
   \<and> map_of (scoped_s3_files (bucket site_with_extra_local_file) ''games/pull-tabs/img/''
               ''games/pull-tabs/img/'') ''keep.png''
       = Some \<lparr>s3_file_key = ''games/pull-tabs/img/keep.png'', s3_file_hash = ''h1'',
                s3_file_size = 20\<rparr>
   \<and> plan (sync_single_path_to_s3 site_with_extra_local_file ''/site'' ''img'' None None
              True True False)
       = Some \<lparr>new_files = [''extra.txt''], changed_files = [''keep.png''], renames = [],
                orphaned_files = [''new.css''], folders_to_delete = [], folders_to_add = []\<rparr>"
  by code_simp

text \<open>
  C6, amended. Take a file that is present on both sides (within the scope) under the same
  relative path and with the same hash. In the plan of the upload direction it is never new,
  never orphaned and never renamed (that plan has no renames at all), and it is listed as
  changed exactly when \<open>force\<close> is set. In the plan of the download direction it is never new,
  changed or orphaned, and it is neither the old nor the new name of a rename.
\<close>

theorem identical_file_not_in_plan:
  assumes "distinct (map fst local_files)"
    and "map_of local_files p = Some info"
    and "map_of (scoped_s3_files s3_objects s3_prefix sc) p = Some s"
    and "hash info = s3_file_hash s"
  shows "p \<notin> set (new_files (preview_to_s3 local_files s3_objects s3_prefix sc is_file
                                project_path force))
       \<and> (p \<in> set (changed_files (preview_to_s3 local_files s3_objects s3_prefix sc is_file
                                       project_path force)) \<longleftrightarrow> force)
       \<and> p \<notin> set (orphaned_files (preview_to_s3 local_files s3_objects s3_prefix sc is_file
                                       project_path force))
       \<and> renames (preview_to_s3 local_files s3_objects s3_prefix sc is_file project_path force)
           = []
       \<and> p \<notin> set (new_files (preview_from_s3 local_files s3_objects s3_prefix sc is_file
                                  project_path))
       \<and> p \<notin> set (changed_files (preview_from_s3 local_files s3_objects s3_prefix sc is_file
                                      project_path))
       \<and> p \<notin> set (orphaned_files (preview_from_s3 local_files s3_objects s3_prefix sc is_file
                                       project_path))
       \<and> (\<forall>(old, r) \<in> set (renames (preview_from_s3 local_files s3_objects s3_prefix sc is_file
                                        project_path)).
             old \<noteq> p \<and> new_s3_rel_path r \<noteq> p)"
proof -
  note up = identical_file_preview_to_s3[OF assms, where is_file = is_file
              and project_path = project_path and force = force]
  note down = identical_file_preview_from_s3[OF assms, where is_file = is_file
                and project_path = project_path]
  from down(4) have "\<forall>(old, r) \<in> set (renames (preview_from_s3 local_files s3_objects s3_prefix
                                                     sc is_file project_path)).
             old \<noteq> p \<and> new_s3_rel_path r \<noteq> p"
    by auto
  with up down(1,2,3) show ?thesis by (intro conjI)
qed

theorem identical_file_not_in_plan_witness:
  "distinct (map fst (scan_local_files_to_s3 site_with_extra_local_file ''/site/img''))
   \<and> map_of (scan_local_files_to_s3 site_with_extra_local_file ''/site/img'') ''keep.png''
       = Some \<lparr>hash = ''h1'', fsize = 20, path = ''/site/img/keep.png''\<rparr>
   \<and> map_of (scoped_s3_files (bucket site_with_extra_local_file) ''games/pull-tabs/img/''
               ''games/pull-tabs/img/'') ''keep.png''
       = Some \<lparr>s3_file_key = ''games/pull-tabs/img/keep.png'', s3_file_hash = ''h1'',
                s3_file_size = 20\<rparr>
   \<and> ''keep.png'' \<notin> set (new_files
         (preview_to_s3 (scan_local_files_to_s3 site_with_extra_local_file ''/site/img'')
            (bucket site_with_extra_local_file) ''games/pull-tabs/img/'' ''games/pull-tabs/img/''
            False ''img'' False))
   \<and> ''keep.png'' \<notin> set (changed_files
         (preview_to_s3 (scan_local_files_to_s3 site_with_extra_local_file ''/site/img'')
            (bucket site_with_extra_local_file) ''games/pull-tabs/img/'' ''games/pull-tabs/img/''
            False ''img'' False))
   \<and> ''keep.png'' \<notin> set (orphaned_files
         (preview_to_s3 (scan_local_files_to_s3 site_with_extra_local_file ''/site/img'')
            (bucket site_with_extra_local_file) ''games/pull-tabs/img/'' ''games/pull-tabs/img/''
            False ''img'' False))
   \<and> ''keep.png'' \<notin> set (new_files
         (preview_from_s3 (scan_local_files_to_s3 site_with_extra_local_file ''/site/img'')
            (bucket site_with_extra_local_file) ''games/pull-tabs/img/'' ''games/pull-tabs/img/''
            False ''img''))
   \<and> ''keep.png'' \<notin> set (changed_files
         (preview_from_s3 (scan_local_files_to_s3 site_with_extra_local_file ''/site/img'')
            (bucket site_with_extra_local_file) ''games/pull-tabs/img/'' ''games/pull-tabs/img/''
            False ''img''))
   \<and> ''keep.png'' \<notin> set (orphaned_files
         (preview_from_s3 (scan_local_files_to_s3 site_with_extra_local_file ''/site/img'')
            (bucket site_with_extra_local_file) ''games/pull-tabs/img/'' ''games/pull-tabs/img/''
            False ''img''))"
proof -
  let ?lf = "scan_local_files_to_s3 site_with_extra_local_file ''/site/img''"
  have 1: "distinct (map fst ?lf)" by code_simp
  have 2: "map_of ?lf ''keep.png''
             = Some \<lparr>hash = ''h1'', fsize = 20, path = ''/site/img/keep.png''\<rparr>" by code_simp
  have 3: "map_of (scoped_s3_files (bucket site_with_extra_local_file) ''games/pull-tabs/img/''
               ''games/pull-tabs/img/'') ''keep.png''
       = Some \<lparr>s3_file_key = ''games/pull-tabs/img/keep.png'', s3_file_hash = ''h1'',
                s3_file_size = 20\<rparr>" by code_simp
  have 4: "hash \<lparr>hash = ''h1'', fsize = 20, path = ''/site/img/keep.png''\<rparr>
           = s3_file_hash \<lparr>s3_file_key = ''games/pull-tabs/img/keep.png'', s3_file_hash = ''h1'',
                            s3_file_size = 20\<rparr>" by simp
  note plan = identical_file_not_in_plan[OF 1 2 3 4, where is_file = False
                and project_path = "''img''" and force = False]
  from plan 1 2 3 show ?thesis by simp
qed


text \<open>
  C10. In a run of \<open>sync_single_path\<close> of \<open>sync_to_s3.py\<close>, a local file or an S3 object whose
  extension (\<open>os.path.splitext\<close>, in lower case) is in \<open>SKIP_EXTENSIONS\<close> takes no part: the scan
  of the local side leaves such a file out, so no such file is uploaded; no object with
  such a key is deleted, as an orphan or as a folder marker; and no such key is listed among
  the orphaned files of the plan, whether or not the file or the object has a counterpart on
  the other side. The names of directory entries are taken to contain no \<open>/\<close>.
\<close>

theorem skipped_extensions_never_synced:
  assumes names: "\<forall>p node. file_system env p = Some node \<longrightarrow> names_ok node"
    and parse: "parse_project_path env project_root project_path bucket_override prefix_override
                  = (bucket_name, s3_prefix, lpath)"
  shows "(\<forall>entry \<in> set (scan_local_files_to_s3 env lpath).
            lower (splitext_ext (path (snd entry))) \<notin> SKIP_EXTENSIONS)
       \<and> (\<forall>f k. Call (UploadFile f k)
                    \<in> set (trace (sync_single_path_to_s3 env project_root project_path
                                    bucket_override prefix_override force dry_run yes)) \<longrightarrow>
                 lower (splitext_ext f) \<notin> SKIP_EXTENSIONS)
       \<and> (\<forall>k. Call (DeleteObject k)
                  \<in> set (trace (sync_single_path_to_s3 env project_root project_path
                                  bucket_override prefix_override force dry_run yes)) \<longrightarrow>
               lower (splitext_ext k) \<notin> SKIP_EXTENSIONS)
       \<and> (\<forall>pv k. plan (sync_single_path_to_s3 env project_root project_path bucket_override
                          prefix_override force dry_run yes) = Some pv
                  \<and> lower (splitext_ext k) \<in> SKIP_EXTENSIONS \<longrightarrow>
                  relative_key s3_prefix k \<notin> set (orphaned_files pv))"
proof (intro conjI allI impI ballI)
  have slash: "suffix ''/'' s3_prefix" using parse by (rule parse_project_path_prefix)
  have scanned: "lower (splitext_ext (path (snd entry))) \<notin> SKIP_EXTENSIONS"
    if "entry \<in> set (scan_local_files_to_s3 env lpath)" for entry
    using scanned_not_skipped[OF names, of "fst entry" "snd entry" SKIP_EXTENSIONS
            "\<lambda>d. d \<noteq> ''archive''" lpath] that
    by (simp add: scan_local_files_to_s3_def)
  show "lower (splitext_ext (path (snd entry))) \<notin> SKIP_EXTENSIONS"
    if "entry \<in> set (scan_local_files_to_s3 env lpath)" for entry
    using scanned[OF that] .
  show "lower (splitext_ext f) \<notin> SKIP_EXTENSIONS"
    if "Call (UploadFile f k)
          \<in> set (trace (sync_single_path_to_s3 env project_root project_path
                          bucket_override prefix_override force dry_run yes))" for f k
  proof -
    from trace_of_sync_single_path_to_s3[OF parse that] obtain so dry where
      "Call (UploadFile f k)
         \<in> set (snd (sync_to_s3 env
                        (if path_exists env lpath then scan_local_files_to_s3 env lpath else [])
                        so s3_prefix force dry
                        (Some (sync_scope env lpath project_path s3_prefix))))" by blast
    from uploaded_is_scanned[OF this] obtain entry where
      "entry \<in> set (scan_local_files_to_s3 env lpath)" "f = path (snd entry)"
      by (auto split: if_splits)
    with scanned show ?thesis by simp
  qed
  show "lower (splitext_ext k) \<notin> SKIP_EXTENSIONS"
    if "Call (DeleteObject k)
          \<in> set (trace (sync_single_path_to_s3 env project_root project_path
                          bucket_override prefix_override force dry_run yes))" for k
  proof -
    from trace_of_sync_single_path_to_s3[OF parse that] obtain so dry where
      "Call (DeleteObject k)
         \<in> set (snd (sync_to_s3 env
                        (if path_exists env lpath then scan_local_files_to_s3 env lpath else [])
                        so s3_prefix force dry
                        (Some (sync_scope env lpath project_path s3_prefix))))" by blast
    from deleted_not_skipped[OF slash this] show ?thesis .
  qed
  show "relative_key s3_prefix k \<notin> set (orphaned_files pv)"
    if "plan (sync_single_path_to_s3 env project_root project_path bucket_override
                prefix_override force dry_run yes) = Some pv
        \<and> lower (splitext_ext k) \<in> SKIP_EXTENSIONS" for pv k
  proof
    assume o: "relative_key s3_prefix k \<in> set (orphaned_files pv)"
    from that obtain so lf sc isf where
      "pv = preview_to_s3 lf so s3_prefix sc isf project_path force"
      by (auto simp: plan_sync_single_path_to_s3 planned_to_s3_def parse split: option.splits)
    with orphaned_files_preview_to_s3[of "relative_key s3_prefix k" lf so s3_prefix sc isf
           project_path force] o
    have "lower (splitext_ext (relative_key s3_prefix k)) \<notin> SKIP_EXTENSIONS" by blast
    with splitext_ext_relative_key[OF slash, of k] that show False by simp
  qed
qed

theorem skipped_extensions_never_synced_witness:
  "parse_project_path site_with_photoshop_files ''/site'' ''img'' None None
     = (''llg-games'', ''games/pull-tabs/img/'', ''/site/img'')
   \<and> trace (sync_single_path_to_s3 site_with_photoshop_files ''/site'' ''img'' None None
               False False True)
       = [Call (UploadFile ''/site/img/new.css'' ''games/pull-tabs/img/new.css''),
          Call (DeleteObject ''games/pull-tabs/img/old.txt'')]
   \<and> lower (splitext_ext ''/site/img/logo.PSD'') \<in> SKIP_EXTENSIONS
   \<and> lower (splitext_ext ''games/pull-tabs/img/old.psd'') \<in> SKIP_EXTENSIONS
   \<and> lower (splitext_ext ''/site/img/new.css'') \<notin> SKIP_EXTENSIONS
   \<and> lower (splitext_ext ''games/pull-tabs/img/old.txt'') \<notin> SKIP_EXTENSIONS
   \<and> (\<exists>pv. plan (sync_single_path_to_s3 site_with_photoshop_files ''/site'' ''img'' None None
                     False False True) = Some pv
           \<and> orphaned_files pv = [''old.txt'']
           \<and> relative_key ''games/pull-tabs/img/'' ''games/pull-tabs/img/old.psd''
                \<notin> set (orphaned_files pv))"
proof -
  let ?site = site_with_photoshop_files
  let ?run = "sync_single_path_to_s3 ?site ''/site'' ''img'' None None False False True"
  have names: "\<forall>p node. file_system ?site p = Some node \<longrightarrow> names_ok node"
    by (simp add: site_with_photoshop_files_def)
  have parse: "parse_project_path ?site ''/site'' ''img'' None None
                 = (''llg-games'', ''games/pull-tabs/img/'', ''/site/img'')"
    by code_simp
  have tr: "trace ?run
       = [Call (UploadFile ''/site/img/new.css'' ''games/pull-tabs/img/new.css''),
          Call (DeleteObject ''games/pull-tabs/img/old.txt'')]"
    by code_simp
  have pl: "plan ?run
       = Some \<lparr>new_files = [''new.css''], changed_files = [], renames = [],
                orphaned_files = [''old.txt''], folders_to_delete = [], folders_to_add = []\<rparr>"
    by code_simp
  have 1: "lower (splitext_ext ''/site/img/logo.PSD'') \<in> SKIP_EXTENSIONS" by code_simp
  have 2: "lower (splitext_ext ''games/pull-tabs/img/old.psd'') \<in> SKIP_EXTENSIONS" by code_simp
  note skipped = skipped_extensions_never_synced[OF names parse, where force = False
                   and dry_run = False and yes = True]
  from skipped have 3: "lower (splitext_ext ''/site/img/new.css'') \<notin> SKIP_EXTENSIONS"
    unfolding tr by simp
  from skipped have 4: "lower (splitext_ext ''games/pull-tabs/img/old.txt'') \<notin> SKIP_EXTENSIONS"
    unfolding tr by simp
  from skipped 2 have 5: "relative_key ''games/pull-tabs/img/'' ''games/pull-tabs/img/old.psd''
          \<notin> set (orphaned_files \<lparr>new_files = [''new.css''], changed_files = [], renames = [],
                orphaned_files = [''old.txt''], folders_to_delete = [], folders_to_add = []\<rparr>)"
    unfolding pl by blast
  from parse tr pl 1 2 3 4 5 show ?thesis by simp
qed

end
